theory Spec2Isabelle
  imports Main
begin

section \<open>The optimizer stage of the inliner: \<^verbatim>\<open>src/optimizer.cpp\<close>\<close>

text \<open>
  The file drives one run of the pruning stage on a single translation unit.  The
  orchestration (\<^verbatim>\<open>HandleTranslationUnit\<close>, \<^verbatim>\<open>getResult\<close>,
  \<^verbatim>\<open>CreateASTConsumer\<close>, \<^verbatim>\<open>doOptimize\<close>) is embedded here function by function.
  The visitors it calls (\<^verbatim>\<open>DependenciesCollector\<close>, \<^verbatim>\<open>OptimizerVisitor\<close>,
  \<^verbatim>\<open>MergeNamespacesVisitor\<close>), the clang front end and the declaration of
  \<^verbatim>\<open>SourceInfo\<close> live in other files; they enter as parameters.
\<close>

subsection \<open>Declarations and the dependency graph\<close>

text \<open>
  A \<^verbatim>\<open>Decl*\<close> is the address of an AST node.  \<^verbatim>\<open>std::set<Decl*>\<close> iterates in
  increasing address order, so the address is all the model keeps of a declaration.
\<close>

type_synonym decl = nat

text \<open>
  \<^verbatim>\<open>srcInfo.uses\<close>: key \<open>d\<close>, value the declarations that \<open>d\<close> uses
  (a \<^verbatim>\<open>std::map\<close> from \<^verbatim>\<open>Decl*\<close> to \<^verbatim>\<open>std::set<Decl*>\<close>).
\<close>

type_synonym references = "decl \<rightharpoonup> decl set"

record source_info =
  uses :: references
  declsToKeep :: "decl set"
  delayedParsedFunctions :: "decl list"

text \<open>
  \<^verbatim>\<open>srcInfo.uses[decl]\<close>: \<^verbatim>\<open>operator[]\<close> of a map default-constructs the value of a
  missing key, so the lookup returns the map as well.
\<close>

definition uses_at :: "references \<Rightarrow> decl \<Rightarrow> references \<times> decl set" where
  "uses_at us d = (case us d of None \<Rightarrow> (us(d \<mapsto> {}), {}) | Some s \<Rightarrow> (us, s))"

subsection \<open>Step 2 of \<^verbatim>\<open>HandleTranslationUnit\<close>: the reachability worklist\<close>

text \<open>
  \<^verbatim>\<open>
  while (!queue.empty()) {
      Decl* decl = *queue.begin();
      queue.erase(queue.begin());
      if (used.insert(decl).second)
          queue.insert(srcInfo.uses[decl].begin(), srcInfo.uses[decl].end());
  }
  \<close>
  The loop state is \<open>(uses, queue, used)\<close>.  The element taken from the queue is
  \<^verbatim>\<open>*queue.begin()\<close>, the least address; the body is written once for any way \<open>pop\<close>
  of choosing it, and the source is the instance \<open>pop = Min\<close>.
\<close>

type_synonym reach_state = "references \<times> decl set \<times> decl set"

definition reach_step :: "(decl set \<Rightarrow> decl) \<Rightarrow> reach_state \<Rightarrow> reach_state" where
  "reach_step pop st =
     (case st of (us, queue, used) \<Rightarrow>
        let d = pop queue;
            queue1 = queue - {d}
        in if d \<notin> used
           then (case uses_at us d of (us1, targets) \<Rightarrow> (us1, queue1 \<union> targets, insert d used))
           else (us, queue1, used))"

partial_function (option) reach_loop :: "(decl set \<Rightarrow> decl) \<Rightarrow> reach_state \<Rightarrow> reach_state option" where
  "reach_loop pop st =
     (if fst (snd st) = {} then Some st else reach_loop pop (reach_step pop st))"

text \<open>
  Lines 121--133: the queue is seeded with the canonical declaration of every element of
  \<^verbatim>\<open>declsToKeep\<close>, \<open>used\<close> starts empty.  The result is the \<open>used\<close> set together
  with \<^verbatim>\<open>srcInfo\<close>, whose map the lookups may have extended.
\<close>

definition find_used_by ::
  "(decl set \<Rightarrow> decl) \<Rightarrow> (decl \<Rightarrow> decl) \<Rightarrow> source_info \<Rightarrow> (source_info \<times> decl set) option" where
  "find_used_by pop getCanonicalDecl si =
     map_option (\<lambda>(us, queue, used). (si\<lparr>uses := us\<rparr>, used))
       (reach_loop pop (uses si, getCanonicalDecl ` declsToKeep si, {}))"

definition find_used :: "(decl \<Rightarrow> decl) \<Rightarrow> source_info \<Rightarrow> (source_info \<times> decl set) option" where
  "find_used = find_used_by Min"

text \<open>The graph the loop walks, and what the claims call reachable.\<close>

definition targets_of :: "references \<Rightarrow> decl \<Rightarrow> decl set" where
  "targets_of us d = (case us d of None \<Rightarrow> {} | Some s \<Rightarrow> s)"

definition edges :: "references \<Rightarrow> (decl \<times> decl) set" where
  "edges us = {(a, b). b \<in> targets_of us a}"

definition reachable :: "references \<Rightarrow> decl set \<Rightarrow> decl set" where
  "reachable us S = (edges us)\<^sup>* `` S"

text \<open>
  A finite graph: finitely many keys, each with finitely many targets, and finitely many
  entry points (what a \<^verbatim>\<open>std::map\<close> of \<^verbatim>\<open>std::set\<close>s always is).
\<close>

definition finite_info :: "source_info \<Rightarrow> bool" where
  "finite_info si \<longleftrightarrow>
     finite (dom (uses si)) \<and> (\<forall>d. finite (targets_of (uses si) d)) \<and> finite (declsToKeep si)"

text \<open>A pop is any choice of an element of a non-empty finite queue.\<close>

definition pops :: "(decl set \<Rightarrow> decl) \<Rightarrow> bool" where
  "pops pop \<longleftrightarrow> (\<forall>Q. finite Q \<and> Q \<noteq> {} \<longrightarrow> pop Q \<in> Q)"

text \<open>
  The number of iterations left is bounded by the queue length plus, for every reachable
  declaration not yet used, one more than the number of its targets.
\<close>

definition work_left :: "references \<Rightarrow> decl set \<Rightarrow> decl set \<Rightarrow> decl set \<Rightarrow> nat" where
  "work_left us R queue used = card queue + (\<Sum>d \<in> R - used. Suc (card (targets_of us d)))"

subsection \<open>Diagnostics\<close>

text \<open>
  \<^verbatim>\<open>clang::DiagnosticsEngine\<close> as far as this file touches it: the flag written by
  \<^verbatim>\<open>setSuppressAllDiagnostics\<close> and the diagnostics that have reached the client.  The
  engine drops a diagnostic that is reported while the flag is set.
\<close>

type_synonym diagnostic = string

record diagnostics_engine =
  suppressAllDiagnostics :: bool
  reported :: "diagnostic list"

definition setSuppressAllDiagnostics :: "bool \<Rightarrow> diagnostics_engine \<Rightarrow> diagnostics_engine" where
  "setSuppressAllDiagnostics v de = de\<lparr>suppressAllDiagnostics := v\<rparr>"

definition Report :: "diagnostic \<Rightarrow> diagnostics_engine \<Rightarrow> diagnostics_engine" where
  "Report d de = (if suppressAllDiagnostics de then de else de\<lparr>reported := reported de @ [d]\<rparr>)"

subsection \<open>Source buffer, edits and the rewriter\<close>

text \<open>
  \<^verbatim>\<open>sourceManager.getBuffer(getMainFileID(), &invalid)\<close> yields a buffer pointer, which
  may be null, and the flag \<^verbatim>\<open>invalid\<close>.
\<close>

record source_manager =
  mainBuffer :: "string option"
  mainInvalid :: bool

definition getBuffer :: "source_manager \<Rightarrow> string option \<times> bool" where
  "getBuffer sm = (mainBuffer sm, mainInvalid sm)"

text \<open>
  Modelled from the spec: an edit (section 3), a delete-range or an insert-at-offset in
  offsets of the original buffer.  The type is declared with \<^verbatim>\<open>SmartRewriter\<close>, not in
  this file.  A deleted range is half open.
\<close>

datatype edit = DeleteRange nat nat | InsertAt nat string

text \<open>
  Modelled from the spec: the state of a \<^verbatim>\<open>SmartRewriter\<close> (declared in
  \<^verbatim>\<open>SmartRewriter.h\<close>, not in this file): the edits the passes have scheduled, and the
  rewrite buffer of the main file.  The buffer exists only once a change has been applied;
  \<^verbatim>\<open>getRewriteBufferFor\<close> returns null otherwise, the branch that \<^verbatim>\<open>getResult\<close>
  marks \<^verbatim>\<open>// No changes\<close>.
\<close>

record smart_rewriter =
  edits :: "edit list"
  rewriteBuffer :: "string option"

text \<open>Modelled from the spec: a rewriter as its constructor leaves it, nothing scheduled.\<close>

definition new_SmartRewriter :: smart_rewriter where
  "new_SmartRewriter = \<lparr>edits = [], rewriteBuffer = None\<rparr>"

text \<open>Modelled from the spec: passes append their edits (section 5); none changes another's.\<close>

definition schedule :: "edit list \<Rightarrow> smart_rewriter \<Rightarrow> smart_rewriter" where
  "schedule es rw = rw\<lparr>edits := edits rw @ es\<rparr>"

text \<open>Modelled from the spec: \<^verbatim>\<open>SmartRewriter::getRewriteBufferFor\<close> of the main file.\<close>

definition getRewriteBufferFor :: "smart_rewriter \<Rightarrow> string option" where
  "getRewriteBufferFor rw = rewriteBuffer rw"

text \<open>
  Modelled from the spec: the Edit Applier of section 4.6 (the body of
  \<^verbatim>\<open>SmartRewriter::applyChanges\<close>, not in this file).  All edits are applied in one pass
  over the original text; a byte covered by several delete ranges is removed once; text
  inserted at an offset comes before the byte at that offset.
\<close>

fun deletes :: "edit \<Rightarrow> nat \<Rightarrow> bool" where
  "deletes (DeleteRange a b) i = (a \<le> i \<and> i < b)"
| "deletes (InsertAt a s) i = False"

fun inserts :: "edit \<Rightarrow> nat \<Rightarrow> string" where
  "inserts (InsertAt a s) i = (if a = i then s else [])"
| "inserts (DeleteRange a b) i = []"

definition apply_edits :: "edit list \<Rightarrow> string \<Rightarrow> string" where
  "apply_edits es txt =
     concat (map (\<lambda>i. concat (map (\<lambda>e. inserts e i) es)
                       @ (if list_ex (\<lambda>e. deletes e i) es then [] else [txt ! i]))
                 [0..<length txt])
     @ concat (map (\<lambda>e. inserts e (length txt)) es)"

text \<open>
  Modelled from the spec: \<^verbatim>\<open>SmartRewriter::applyChanges\<close>.  With no edit scheduled
  nothing is rewritten and no rewrite buffer comes to exist; without a valid main buffer
  there is no rewrite target.
\<close>

definition applyChanges :: "source_manager \<Rightarrow> smart_rewriter \<Rightarrow> smart_rewriter" where
  "applyChanges sm rw =
     (if edits rw = [] then rw
      else case mainBuffer sm of
             None \<Rightarrow> rw
           | Some txt \<Rightarrow> if mainInvalid sm then rw
                         else rw\<lparr>rewriteBuffer := Some (apply_edits (edits rw) txt)\<rparr>)"

subsection \<open>The preprocessor block tracker\<close>

text \<open>
  Modelled from the spec: the records of section 3 that \<^verbatim>\<open>RemoveInactivePreprocessorBlocks\<close>
  (declared in its own header, not in this file) keeps.  A macro record has the name, the
  range of the definition and the ranges of the expansion sites; a preprocessor block has
  the range of one branch and whether the branch was taken.
\<close>

type_synonym range = "nat \<times> nat"

record macro_record =
  macroName :: string
  definitionRange :: range
  expansionSites :: "range list"

record branch_record =
  branchRange :: range
  branchTaken :: bool

text \<open>
  Modelled from the spec: the state of the tracker, the keep-list it is constructed with
  (the third argument of the constructor call on line 202) and the facts its callbacks have
  recorded.
\<close>

record preprocessor_tracker =
  keepList :: "string set"
  branches :: "branch_record list"
  macros :: "macro_record list"

text \<open>Modelled from the spec: a tracker as its constructor leaves it, nothing recorded.\<close>

definition new_RemoveInactivePreprocessorBlocks :: "string set \<Rightarrow> preprocessor_tracker" where
  "new_RemoveInactivePreprocessorBlocks keep = \<lparr>keepList = keep, branches = [], macros = []\<rparr>"

text \<open>
  Modelled from the spec: the edit that deletes a range, and whether a range falls inside
  a range that the rewriter has been told to remove.
\<close>

definition delete_range :: "range \<Rightarrow> edit" where
  "delete_range r = DeleteRange (fst r) (snd r)"

definition inside_removed :: "smart_rewriter \<Rightarrow> range \<Rightarrow> bool" where
  "inside_removed rw r =
     list_ex (\<lambda>e. case e of DeleteRange a b \<Rightarrow> a \<le> fst r \<and> snd r \<le> b | InsertAt a s \<Rightarrow> False)
             (edits rw)"

text \<open>
  Modelled from the spec: the dead-macro rule of \<^verbatim>\<open>RemoveInactivePreprocessorBlocks::Finalize\<close>
  (section 4.5, not in this file).  A macro's definition is deleted if every recorded
  expansion site falls inside a removed range, unless its name is in the keep-list.
\<close>

definition dead_macros :: "preprocessor_tracker \<Rightarrow> smart_rewriter \<Rightarrow> macro_record list" where
  "dead_macros pp rw =
     filter (\<lambda>m. list_all (inside_removed rw) (expansionSites m) \<and> macroName m \<notin> keepList pp)
            (macros pp)"

text \<open>
  Modelled from the spec: \<^verbatim>\<open>RemoveInactivePreprocessorBlocks::Finalize\<close> (section 4.5).  It
  deletes every branch that was never taken, then the definition of every dead macro.
\<close>

definition Finalize :: "preprocessor_tracker \<Rightarrow> smart_rewriter \<Rightarrow> edit list" where
  "Finalize pp rw =
     map (\<lambda>b. delete_range (branchRange b)) (filter (\<lambda>b. \<not> branchTaken b) (branches pp))
     @ map (\<lambda>m. delete_range (definitionRange m)) (dead_macros pp rw)"

subsection \<open>The consumer and the passes it calls\<close>

text \<open>
  The passes whose code is in other files, taken as parameters.  \<open>'ast\<close> is the AST
  context.  A visitor is handed the used set and the rewriter and answers with the edits
  it schedules; \<^verbatim>\<open>OptimizerVisitor\<close> also fills \<^verbatim>\<open>removedDecls\<close>.
  \<^verbatim>\<open>lateTemplateParser f\<close> stands for the lookup in \<^verbatim>\<open>LateParsedTemplateMap\<close>
  and the call of \<^verbatim>\<open>sema.LateTemplateParser\<close>: it changes the AST and reports
  diagnostics.  It is total: the collector is taken to record only functions that are keys
  of the map (for any other the source would dereference a null pointer).
\<close>

record 'ast collaborators =
  getCanonicalDecl :: "decl \<Rightarrow> decl"
  depsTraverse :: "source_manager \<Rightarrow> 'ast \<Rightarrow> source_info \<Rightarrow> source_info"
  lateTemplateParser :: "decl \<Rightarrow> 'ast \<Rightarrow> 'ast \<times> diagnostic list"
  optimizerTraverse :: "source_manager \<Rightarrow> 'ast \<Rightarrow> decl set \<Rightarrow> smart_rewriter \<Rightarrow> decl set \<times> edit list"
  optimizerFinalize ::
    "source_manager \<Rightarrow> 'ast \<Rightarrow> decl set \<Rightarrow> decl set \<Rightarrow> smart_rewriter \<Rightarrow> decl set \<times> edit list"
  mergeNamespacesTraverse :: "source_manager \<Rightarrow> 'ast \<Rightarrow> decl set \<Rightarrow> smart_rewriter \<Rightarrow> edit list"

text \<open>The stages of a run, in the names of the spec's control flow.\<close>

datatype stage =
  CollectDependencies | ComputeUsedSet | LexicalPrune | NamespaceMerge
  | PreprocessorFinalize | ApplyEdits | ReturnText

text \<open>
  \<^verbatim>\<open>OptimizerConsumer\<close>: its members, with the objects they refer to held by value
  (\<open>diagnostics\<close> is \<^verbatim>\<open>compiler.getSema().getDiagnostics()\<close>).  \<open>stagesRun\<close> is not a
  member: it is the log of the stages entered so far, kept to state in which order they run.
\<close>

record optimizer_consumer =
  diagnostics :: diagnostics_engine
  sourceManager :: source_manager
  smartRewriter :: smart_rewriter
  ppCallbacks :: preprocessor_tracker
  result :: string
  srcInfo :: source_info
  stagesRun :: "stage list"

definition enter :: "stage \<Rightarrow> optimizer_consumer \<Rightarrow> optimizer_consumer" where
  "enter s c = c\<lparr>stagesRun := stagesRun c @ [s]\<rparr>"

definition LateTemplateParser ::
  "'ast collaborators \<Rightarrow> decl \<Rightarrow> diagnostics_engine \<times> 'ast \<Rightarrow> diagnostics_engine \<times> 'ast" where
  "LateTemplateParser C f =
     (\<lambda>(de, ast). case lateTemplateParser C f ast of (ast1, ds) \<Rightarrow> (fold Report ds de, ast1))"

text \<open>
  Lines 98--118: the dependency visitor runs, then every delayed-parsed function
  template is parsed, between \<^verbatim>\<open>setSuppressAllDiagnostics(true)\<close> and
  \<^verbatim>\<open>setSuppressAllDiagnostics(false)\<close>.
\<close>

definition collect_dependencies ::
  "'ast collaborators \<Rightarrow> optimizer_consumer \<times> 'ast \<Rightarrow> optimizer_consumer \<times> 'ast" where
  "collect_dependencies C =
     (\<lambda>(c, ast).
        let c0 = enter CollectDependencies c;
            c1 = c0\<lparr>srcInfo := depsTraverse C (sourceManager c0) ast (srcInfo c0)\<rparr>;
            de1 = setSuppressAllDiagnostics True (diagnostics c1);
            (de2, ast2) = fold (LateTemplateParser C) (delayedParsedFunctions (srcInfo c1)) (de1, ast);
            de3 = setSuppressAllDiagnostics False de2
        in (c1\<lparr>diagnostics := de3\<rparr>, ast2))"

text \<open>Lines 120--133.\<close>

definition compute_used ::
  "'ast collaborators \<Rightarrow> optimizer_consumer \<Rightarrow> (optimizer_consumer \<times> decl set) option" where
  "compute_used C c =
     map_option (\<lambda>(si, used). ((enter ComputeUsedSet c)\<lparr>srcInfo := si\<rparr>, used))
       (find_used (getCanonicalDecl C) (srcInfo c))"

text \<open>Lines 135--141: \<^verbatim>\<open>removedDecls\<close> starts empty; the visitor traverses, then finalizes.\<close>

definition lexical_prune ::
  "'ast collaborators \<Rightarrow> optimizer_consumer \<times> 'ast \<Rightarrow> decl set \<Rightarrow> optimizer_consumer \<times> decl set" where
  "lexical_prune C = (\<lambda>(c, ast) used.
     let c0 = enter LexicalPrune c;
         (removed1, es1) = optimizerTraverse C (sourceManager c0) ast used (smartRewriter c0);
         rw1 = schedule es1 (smartRewriter c0);
         (removed2, es2) = optimizerFinalize C (sourceManager c0) ast used removed1 rw1;
         rw2 = schedule es2 rw1
     in (c0\<lparr>smartRewriter := rw2\<rparr>, removed2))"

text \<open>Lines 142--145.\<close>

definition merge_namespaces ::
  "'ast collaborators \<Rightarrow> optimizer_consumer \<times> 'ast \<Rightarrow> decl set \<Rightarrow> optimizer_consumer" where
  "merge_namespaces C = (\<lambda>(c, ast) removedDecls.
     let c0 = enter NamespaceMerge c;
         es = mergeNamespacesTraverse C (sourceManager c0) ast removedDecls (smartRewriter c0)
     in c0\<lparr>smartRewriter := schedule es (smartRewriter c0)\<rparr>)"

text \<open>Line 153: \<^verbatim>\<open>ppCallbacks.Finalize()\<close>.\<close>

definition preprocessor_finalize :: "optimizer_consumer \<Rightarrow> optimizer_consumer" where
  "preprocessor_finalize c =
     (let c0 = enter PreprocessorFinalize c
      in c0\<lparr>smartRewriter := schedule (Finalize (ppCallbacks c0) (smartRewriter c0)) (smartRewriter c0)\<rparr>)"

text \<open>Line 155: \<^verbatim>\<open>smartRewriter->applyChanges()\<close>.\<close>

definition apply_changes :: "optimizer_consumer \<Rightarrow> optimizer_consumer" where
  "apply_changes c =
     (let c0 = enter ApplyEdits c
      in c0\<lparr>smartRewriter := applyChanges (sourceManager c0) (smartRewriter c0)\<rparr>)"

text \<open>Lines 161--173.\<close>

definition getResult :: "optimizer_consumer \<Rightarrow> string" where
  "getResult c =
     (case getRewriteBufferFor (smartRewriter c) of
        Some rewriteBuf \<Rightarrow> rewriteBuf
      | None \<Rightarrow>
          (case getBuffer (sourceManager c) of
             (buf, invalid) \<Rightarrow>
               (case buf of
                  Some b \<Rightarrow> if \<not> invalid then b else ''Inliner error''
                | None \<Rightarrow> ''Inliner error'')))"

text \<open>Line 157: \<^verbatim>\<open>result = getResult()\<close>.\<close>

definition return_text :: "optimizer_consumer \<Rightarrow> optimizer_consumer" where
  "return_text c = (let c0 = enter ReturnText c in c0\<lparr>result := getResult c0\<rparr>)"

text \<open>
  \<^verbatim>\<open>HandleTranslationUnit\<close>, lines 92--158, in three parts.  Steps 1 to 3 decide
  what is removed: after them \<^verbatim>\<open>removedDecls\<close> is not written again.  The value is
  \<open>None\<close> when the worklist loop does not return.
\<close>

definition decide_removals ::
  "'ast collaborators \<Rightarrow> optimizer_consumer \<Rightarrow> 'ast \<Rightarrow> (optimizer_consumer \<times> 'ast) option" where
  "decide_removals C c Ctx =
     (case collect_dependencies C (c, Ctx) of
        (c1, ast) \<Rightarrow>
          (case compute_used C c1 of
             None \<Rightarrow> None
           | Some (c2, used) \<Rightarrow>
               (case lexical_prune C (c2, ast) used of
                  (c3, removedDecls) \<Rightarrow> Some (merge_namespaces C (c3, ast) removedDecls, ast))))"

text \<open>Steps 4 and 5 follow; with them every pass has scheduled its edits.\<close>

definition schedule_edits ::
  "'ast collaborators \<Rightarrow> optimizer_consumer \<Rightarrow> 'ast \<Rightarrow> (optimizer_consumer \<times> 'ast) option" where
  "schedule_edits C c Ctx =
     map_option (\<lambda>(c4, ast). (preprocessor_finalize c4, ast)) (decide_removals C c Ctx)"

text \<open>Then the edits are applied and the text is stored in \<^verbatim>\<open>result\<close>.\<close>

definition HandleTranslationUnit ::
  "'ast collaborators \<Rightarrow> optimizer_consumer \<Rightarrow> 'ast \<Rightarrow> (optimizer_consumer \<times> 'ast) option" where
  "HandleTranslationUnit C c Ctx =
     map_option (\<lambda>(c5, ast). (return_text (apply_changes c5), ast)) (schedule_edits C c Ctx)"

subsection \<open>\<^verbatim>\<open>OptimizerFrontendAction\<close> and its factory\<close>

datatype thrown = CString string | RuntimeError string

record compiler_instance =
  compilerSourceManager :: "source_manager option"
  compilerDiagnostics :: diagnostics_engine
  compilerPPCallbacks :: "preprocessor_tracker list"

definition hasSourceManager :: "compiler_instance \<Rightarrow> bool" where
  "hasSourceManager compiler \<longleftrightarrow> compilerSourceManager compiler \<noteq> None"

definition addPPCallbacks :: "preprocessor_tracker \<Rightarrow> compiler_instance \<Rightarrow> compiler_instance" where
  "addPPCallbacks cb compiler = compiler\<lparr>compilerPPCallbacks := compilerPPCallbacks compiler @ [cb]\<rparr>"

record frontend_action =
  actionResult :: string
  actionMacrosToKeep :: "string set"

definition new_OptimizerConsumer ::
  "compiler_instance \<Rightarrow> source_manager \<Rightarrow> smart_rewriter \<Rightarrow> preprocessor_tracker \<Rightarrow> string
     \<Rightarrow> optimizer_consumer" where
  "new_OptimizerConsumer compiler sm smartRewriter' ppCallbacks' result' =
     \<lparr>diagnostics = compilerDiagnostics compiler,
      sourceManager = sm,
      smartRewriter = smartRewriter',
      ppCallbacks = ppCallbacks',
      result = result',
      srcInfo = \<lparr>uses = Map.empty, declsToKeep = {}, delayedParsedFunctions = []\<rparr>,
      stagesRun = []\<rparr>"

text \<open>
  Lines 195--207.  The value is the compiler instance after the call and either what was
  thrown or the consumer.
\<close>

definition CreateASTConsumer ::
  "frontend_action \<Rightarrow> compiler_instance \<Rightarrow> compiler_instance \<times> (thrown + optimizer_consumer)" where
  "CreateASTConsumer a compiler =
     (case compilerSourceManager compiler of
        None \<Rightarrow> (compiler, Inl (CString ''No source manager''))
      | Some sm \<Rightarrow>
          let smartRewriter' = new_SmartRewriter;
              ppCallbacks' = new_RemoveInactivePreprocessorBlocks (actionMacrosToKeep a);
              consumer = new_OptimizerConsumer compiler sm smartRewriter' ppCallbacks' (actionResult a)
          in (addPPCallbacks ppCallbacks' compiler, Inr consumer))"

record action_factory =
  factoryResult :: string
  factoryMacrosToKeep :: "string set"

definition create :: "action_factory \<Rightarrow> frontend_action" where
  "create f = \<lparr>actionResult = factoryResult f, actionMacrosToKeep = factoryMacrosToKeep f\<rparr>"

subsection \<open>\<^verbatim>\<open>Optimizer\<close>\<close>

record optimizer =
  cmdLineOptions :: "string list"
  macrosToKeep :: "string set"

text \<open>Lines 225--229: the constructor copies the options and turns the keep-list into a set.\<close>

definition Optimizer :: "string list \<Rightarrow> string list \<Rightarrow> optimizer" where
  "Optimizer cmdLineOptions' macrosToKeep' =
     \<lparr>cmdLineOptions = cmdLineOptions', macrosToKeep = set macrosToKeep'\<rparr>"

text \<open>
  \<^verbatim>\<open>tool.run(&factory)\<close> is clang's: it either returns a status, having left some text
  in \<^verbatim>\<open>result\<close> through the factory's reference, or an exception leaves it.  It is a
  parameter, given the compilation options, the source list and the factory.
\<close>

datatype run_outcome = Returned int string | Threw thrown

type_synonym clang_tool = "string list \<Rightarrow> string list \<Rightarrow> action_factory \<Rightarrow> run_outcome"

text \<open>
  Lines 231--248.  The value is the \<^verbatim>\<open>Optimizer\<close> object after the call and either what
  was thrown or the returned text.
\<close>

definition doOptimize :: "clang_tool \<Rightarrow> optimizer \<Rightarrow> string \<Rightarrow> optimizer \<times> (thrown + string)" where
  "doOptimize run this cppFile =
     (let sources = [] @ [cppFile];
          result0 = [];
          factory = \<lparr>factoryResult = result0, factoryMacrosToKeep = macrosToKeep this\<rparr>
      in case run (cmdLineOptions this) sources factory of
           Threw e \<Rightarrow> (this, Inl e)
         | Returned ret result1 \<Rightarrow>
             if ret \<noteq> 0 then (this, Inl (RuntimeError ''Compilation error''))
             else (this, Inr result1))"

text \<open>A batch: the same \<^verbatim>\<open>Optimizer\<close> object is used for one file after the other.\<close>

definition after_runs :: "clang_tool \<Rightarrow> optimizer \<Rightarrow> string list \<Rightarrow> optimizer" where
  "after_runs run this files = fold (\<lambda>f opt. fst (doOptimize run opt f)) files this"

subsection \<open>What an edit leaves of a range\<close>

text \<open>
  Modelled from the spec: two ranges of the original buffer overlap when they share a
  byte; an edit leaves a range untouched when it deletes none of its bytes and inserts
  nothing strictly inside it (section 4.6).
\<close>

definition overlaps :: "range \<Rightarrow> range \<Rightarrow> bool" where
  "overlaps r s \<longleftrightarrow> fst r < snd s \<and> fst s < snd r"

fun untouched :: "edit \<Rightarrow> range \<Rightarrow> bool" where
  "untouched (DeleteRange a b) r = (\<not> overlaps (a, b) r)"
| "untouched (InsertAt a s) r = (\<not> (fst r < a \<and> a < snd r))"

subsection \<open>clang's tooling around this file's code\<close>

text \<open>
  \<^verbatim>\<open>ClangTool::run\<close> is clang's.  What it does with the factory, as far as this file's
  code meets it: for every source file it sets up a compiler instance with a diagnostics
  engine of its own (suppression off, nothing reported), asks the factory for an action
  and the action for its consumer (\<^verbatim>\<open>CreateASTConsumer\<close>), parses the file, during
  which the registered callbacks record the directive facts and diagnostics are reported,
  calls \<^verbatim>\<open>HandleTranslationUnit\<close>, and fails the file when an error has reached the
  diagnostics client.  What clang computes from the options and the file is a parameter:
  whether a compilation context can be set up (and with which source manager), what the
  parse yields, and which diagnostics are errors.
\<close>

definition new_DiagnosticsEngine :: diagnostics_engine where
  "new_DiagnosticsEngine = \<lparr>suppressAllDiagnostics = False, reported = []\<rparr>"

record 'ast front_end =
  setupFor :: "string list \<Rightarrow> string \<Rightarrow> source_manager option option"
  parseFile :: "string list \<Rightarrow> string \<Rightarrow> 'ast \<times> branch_record list \<times> macro_record list \<times> diagnostic list"
  isError :: "diagnostic \<Rightarrow> bool"

definition run_status :: "(diagnostic \<Rightarrow> bool) \<Rightarrow> diagnostics_engine \<Rightarrow> int" where
  "run_status isErr de = (if list_ex isErr (reported de) then 1 else 0)"

text \<open>
  The consumer when \<^verbatim>\<open>HandleTranslationUnit\<close> is called: the callbacks have recorded
  the branches and macros of the file, and the diagnostics of the parse have been reported.
\<close>

definition after_parsing ::
  "optimizer_consumer \<Rightarrow> branch_record list \<Rightarrow> macro_record list \<Rightarrow> diagnostic list
     \<Rightarrow> optimizer_consumer" where
  "after_parsing consumer bs ms ds =
     consumer\<lparr>ppCallbacks := (ppCallbacks consumer)\<lparr>branches := bs, macros := ms\<rparr>,
              diagnostics := fold Report ds (diagnostics consumer)\<rparr>"

text \<open>
  One source file.  The value is \<open>None\<close> when \<^verbatim>\<open>HandleTranslationUnit\<close> does not
  return; otherwise the outcome for the file, with the text left in \<^verbatim>\<open>result\<close>, and the
  consumer the run has worked on, if it created one.
\<close>

definition process_file ::
  "'ast front_end \<Rightarrow> 'ast collaborators \<Rightarrow> string list \<Rightarrow> action_factory \<Rightarrow> string
     \<Rightarrow> (run_outcome \<times> optimizer_consumer option) option" where
  "process_file F C opts factory file =
     (case setupFor F opts file of
        None \<Rightarrow> Some (Returned 1 (factoryResult factory), None)
      | Some sm \<Rightarrow>
          (case CreateASTConsumer (create factory)
                  \<lparr>compilerSourceManager = sm,
                   compilerDiagnostics = new_DiagnosticsEngine,
                   compilerPPCallbacks = []\<rparr> of
             (compiler, Inl e) \<Rightarrow> Some (Threw e, None)
           | (compiler, Inr consumer) \<Rightarrow>
               (case parseFile F opts file of
                  (Ctx, bs, ms, ds) \<Rightarrow>
                    map_option
                      (\<lambda>(c, ast). (Returned (run_status (isError F) (diagnostics c)) (result c), Some c))
                      (HandleTranslationUnit C (after_parsing consumer bs ms ds) Ctx))))"

text \<open>
  All source files, one after the other: the text of a later file replaces that of an
  earlier one, and the status is nonzero when a file has failed.
\<close>

fun tool_run ::
  "'ast front_end \<Rightarrow> 'ast collaborators \<Rightarrow> string list \<Rightarrow> string list \<Rightarrow> action_factory
     \<Rightarrow> (run_outcome \<times> optimizer_consumer option) option" where
  "tool_run F C opts [] factory = Some (Returned 0 (factoryResult factory), None)"
| "tool_run F C opts (file # files) factory =
     (case process_file F C opts factory file of
        None \<Rightarrow> None
      | Some (Threw e, consumer) \<Rightarrow> Some (Threw e, consumer)
      | Some (Returned ret text, consumer) \<Rightarrow>
          (case tool_run F C opts files (factory\<lparr>factoryResult := text\<rparr>) of
             None \<Rightarrow> None
           | Some (Threw e, consumer1) \<Rightarrow> Some (Threw e, consumer1)
           | Some (Returned ret1 text1, consumer1) \<Rightarrow>
               Some (Returned (if ret \<noteq> 0 then ret else ret1) text1,
                     (case consumer1 of None \<Rightarrow> consumer | Some c \<Rightarrow> Some c))))"

text \<open>
  A tool in the sense of \<open>doOptimize\<close> runs as this tooling does when, wherever the
  tooling returns, it returns the same outcome.
\<close>

definition runs_as :: "'ast front_end \<Rightarrow> 'ast collaborators \<Rightarrow> clang_tool \<Rightarrow> bool" where
  "runs_as F C run \<longleftrightarrow>
     (\<forall>opts sources factory outcome consumer.
        tool_run F C opts sources factory = Some (outcome, consumer)
          \<longrightarrow> run opts sources factory = outcome)"

subsection \<open>\<^verbatim>\<open>doOptimize\<close> in a process that has run before\<close>

text \<open>
  The objects an invocation of \<^verbatim>\<open>doOptimize\<close> works on: the source list, the result
  buffer, the factory, and the consumer that the tool creates, which owns the rewriter with
  its edits, the tracker and the collected \<^verbatim>\<open>srcInfo\<close>.  To state what one invocation
  passes on to the next, they are kept here in a memory that outlives the call: an
  invocation finds in it whatever the one before has left.
\<close>

record pipeline_objects =
  sourcesObj :: "string list"
  resultObj :: string
  factoryObj :: action_factory
  consumerObj :: "optimizer_consumer option"

text \<open>
  Lines 231--248 again, statement by statement, on that memory: each declaration
  constructs its object in place (\<^verbatim>\<open>vector<string> sources;\<close>, \<^verbatim>\<open>string result;\<close>,
  the factory), and the tool is clang's tooling above.
\<close>

definition doOptimize_in_process ::
  "'ast front_end \<Rightarrow> 'ast collaborators \<Rightarrow> optimizer \<times> pipeline_objects \<Rightarrow> string
     \<Rightarrow> ((optimizer \<times> pipeline_objects) \<times> (thrown + string)) option" where
  "doOptimize_in_process F C = (\<lambda>(this, mem) cppFile.
     let mem1 = mem\<lparr>sourcesObj := []\<rparr>;
         mem2 = mem1\<lparr>sourcesObj := sourcesObj mem1 @ [cppFile]\<rparr>;
         mem3 = mem2\<lparr>resultObj := []\<rparr>;
         mem4 = mem3\<lparr>factoryObj :=
                  \<lparr>factoryResult = resultObj mem3, factoryMacrosToKeep = macrosToKeep this\<rparr>\<rparr>
     in case tool_run F C (cmdLineOptions this) (sourcesObj mem4) (factoryObj mem4) of
          None \<Rightarrow> None
        | Some (outcome, consumer) \<Rightarrow>
            let mem5 = mem4\<lparr>consumerObj :=
                         (case consumer of None \<Rightarrow> consumerObj mem4 | Some c \<Rightarrow> Some c)\<rparr>
            in (case outcome of
                  Threw e \<Rightarrow> Some ((this, mem5), Inl e)
                | Returned ret result1 \<Rightarrow>
                    let mem6 = mem5\<lparr>resultObj := result1\<rparr>
                    in if ret \<noteq> 0
                       then Some ((this, mem6), Inl (RuntimeError ''Compilation error''))
                       else Some ((this, mem6), Inr result1)))"

text \<open>A batch in one process: each invocation starts in the memory the one before has left.\<close>

fun after_batch ::
  "'ast front_end \<Rightarrow> 'ast collaborators \<Rightarrow> optimizer \<times> pipeline_objects \<Rightarrow> string list
     \<Rightarrow> (optimizer \<times> pipeline_objects) option" where
  "after_batch F C p [] = Some p"
| "after_batch F C p (file # files) =
     (case doOptimize_in_process F C p file of
        None \<Rightarrow> None
      | Some (p1, outcome) \<Rightarrow> after_batch F C p1 files)"

subsection \<open>Example inputs\<close>

text \<open>
  A graph with a cycle (1 and 2 use each other) and a self-loop (2 uses itself);
  declaration 7 is a redeclaration of 1; 3, 4 and 5 are not reachable from 1.
\<close>

definition example_info :: source_info where
  "example_info =
     \<lparr>uses = [1 \<mapsto> {2}, 2 \<mapsto> {1, 2}, 3 \<mapsto> {1}, 5 \<mapsto> {4}],
      declsToKeep = {7},
      delayedParsedFunctions = [3, 5]\<rparr>"

definition example_canonical :: "decl \<Rightarrow> decl" where
  "example_canonical d = (if d = 7 then 1 else d)"

text \<open>
  Scenario A of the spec: declaration 3 is \<^verbatim>\<open>unused\<close>, written at offsets 0 to 24, and
  1 is \<^verbatim>\<open>main\<close>.  The passes below collect \<open>example_info\<close> with the given entry points,
  report an error for every forced template, and delete declaration 3 when it is not used.
\<close>

definition example_text :: string where
  "example_text = ''int unused(){return 1;} int main(){return 0;}''"

definition example_passes :: "decl set \<Rightarrow> nat collaborators" where
  "example_passes keep =
     \<lparr>getCanonicalDecl = example_canonical,
      depsTraverse = (\<lambda>sm ast si. example_info\<lparr>declsToKeep := keep\<rparr>),
      lateTemplateParser = (\<lambda>f ast. (Suc ast, [''error: expected expression''])),
      optimizerTraverse = (\<lambda>sm ast used rw. if 3 \<in> used then ({}, []) else ({3}, [DeleteRange 0 24])),
      optimizerFinalize = (\<lambda>sm ast used removed rw. (removed, [])),
      mergeNamespacesTraverse = (\<lambda>sm ast removed rw. [])\<rparr>"

definition example_compiler :: compiler_instance where
  "example_compiler =
     \<lparr>compilerSourceManager = Some \<lparr>mainBuffer = Some example_text, mainInvalid = False\<rparr>,
      compilerDiagnostics = \<lparr>suppressAllDiagnostics = False, reported = []\<rparr>,
      compilerPPCallbacks = []\<rparr>"

definition example_consumer :: optimizer_consumer where
  "example_consumer =
     new_OptimizerConsumer example_compiler \<lparr>mainBuffer = Some example_text, mainInvalid = False\<rparr>
       new_SmartRewriter (new_RemoveInactivePreprocessorBlocks {''NDEBUG''}) []"

text \<open>Two macros without any expansion site; only one of them is in the keep-list.\<close>

definition example_macros :: "macro_record list" where
  "example_macros =
     [\<lparr>macroName = ''NDEBUG'', definitionRange = (0, 15), expansionSites = []\<rparr>,
      \<lparr>macroName = ''UNUSED_MACRO'', definitionRange = (16, 38), expansionSites = []\<rparr>]"

text \<open>A tool run that fails after some text has already been written to \<^verbatim>\<open>result\<close>.\<close>

definition example_tool :: clang_tool where
  "example_tool opts sources factory =
     (if sources = [''broken.cpp''] then Returned 1 ''int main(){''
      else Returned 0 (factoryResult factory @ ''int main(){return 0;}''))"

text \<open>
  A front end for the examples: \<^verbatim>\<open>broken.cpp\<close> has no compilation context; every other
  file is the text of scenario A and parses with a warning.  A diagnostic is an error when
  its text begins with \<^verbatim>\<open>error\<close>.
\<close>

definition example_front_end :: "nat front_end" where
  "example_front_end =
     \<lparr>setupFor = (\<lambda>opts file. if file = ''broken.cpp'' then None
                                else Some (Some \<lparr>mainBuffer = Some example_text, mainInvalid = False\<rparr>)),
      parseFile = (\<lambda>opts file. (0, [], [], [''warning: unused variable''])),
      isError = (\<lambda>d. take 5 d = ''error'')\<rparr>"

definition example_run :: clang_tool where
  "example_run opts sources factory =
     (case tool_run example_front_end (example_passes {7}) opts sources factory of
        Some (outcome, consumer) \<Rightarrow> outcome
      | None \<Rightarrow> Returned 0 [])"

text \<open>A memory as an earlier invocation on another file could have left it.\<close>

definition example_leftover :: pipeline_objects where
  "example_leftover =
     \<lparr>sourcesObj = [''other.cpp''],
      resultObj = ''int other(){return 2;}'',
      factoryObj = \<lparr>factoryResult = ''int other(){return 2;}'', factoryMacrosToKeep = {''NDEBUG''}\<rparr>,
      consumerObj = Some (example_consumer\<lparr>smartRewriter :=
                      \<lparr>edits = [DeleteRange 3 9], rewriteBuffer = Some ''int''\<rparr>,
                      srcInfo := example_info, result := ''int''\<rparr>)\<rparr>"

definition empty_objects :: pipeline_objects where
  "empty_objects =
     \<lparr>sourcesObj = [], resultObj = [],
      factoryObj = \<lparr>factoryResult = [], factoryMacrosToKeep = {}\<rparr>,
      consumerObj = None\<rparr>"

text \<open>
  A macro of the keep-list that is defined inside a function nobody uses: the definition is
  at offsets 15 to 29 of the text, the function at 0 to 32, and the lexical pruner deletes
  the function.
\<close>

definition kept_macro_text :: string where
  "kept_macro_text =
     ''void unused(){'' @ [CHR 0x0A] @ ''#define KEEP 1'' @ [CHR 0x0A] @ ''}'' @ [CHR 0x0A]
       @ ''int main(){return 0;}''"

definition kept_macro :: macro_record where
  "kept_macro = \<lparr>macroName = ''KEEP'', definitionRange = (15, 29), expansionSites = []\<rparr>"

definition kept_macro_passes :: "nat collaborators" where
  "kept_macro_passes =
     (example_passes {7})
       \<lparr>optimizerTraverse := (\<lambda>sm ast used rw. if 3 \<in> used then ({}, []) else ({3}, [DeleteRange 0 32]))\<rparr>"

definition kept_macro_compiler :: compiler_instance where
  "kept_macro_compiler =
     \<lparr>compilerSourceManager = Some \<lparr>mainBuffer = Some kept_macro_text, mainInvalid = False\<rparr>,
      compilerDiagnostics = new_DiagnosticsEngine,
      compilerPPCallbacks = []\<rparr>"

text \<open>
  The consumer that \<^verbatim>\<open>CreateASTConsumer\<close> makes for an \<^verbatim>\<open>Optimizer\<close> constructed with the
  keep-list \<^verbatim>\<open>KEEP\<close>, after the callbacks have recorded the macro.
\<close>

definition kept_macro_consumer :: optimizer_consumer where
  "kept_macro_consumer =
     after_parsing
       (new_OptimizerConsumer kept_macro_compiler
          \<lparr>mainBuffer = Some kept_macro_text, mainInvalid = False\<rparr>
          new_SmartRewriter
          (new_RemoveInactivePreprocessorBlocks (macrosToKeep (Optimizer [] [''KEEP''])))
          [])
       [] [kept_macro] []"

text \<open>
  Two macros at the top of a file: \<^verbatim>\<open>KEEP\<close>, of the keep-list, is expanded nowhere;
  \<^verbatim>\<open>TMP\<close> is expanded only in the function nobody uses.  The definitions are at offsets
  0 to 14 and 15 to 28, the function at 29 to 54 and the expansion of \<^verbatim>\<open>TMP\<close> at 49 to
  52.  The lexical pruner deletes the function.
\<close>

definition toggle_text :: string where
  "toggle_text =
     ''#define KEEP 1'' @ [CHR 0x0A] @ ''#define TMP 2'' @ [CHR 0x0A]
       @ ''int unused(){return TMP;} int main(){return 0;}''"

definition toggle_macros :: "macro_record list" where
  "toggle_macros =
     [\<lparr>macroName = ''KEEP'', definitionRange = (0, 14), expansionSites = []\<rparr>,
      \<lparr>macroName = ''TMP'', definitionRange = (15, 28), expansionSites = [(49, 52)]\<rparr>]"

definition toggle_passes :: "nat collaborators" where
  "toggle_passes =
     (example_passes {7})
       \<lparr>optimizerTraverse := (\<lambda>sm ast used rw. if 3 \<in> used then ({}, []) else ({3}, [DeleteRange 29 54]))\<rparr>"

definition toggle_compiler :: compiler_instance where
  "toggle_compiler =
     \<lparr>compilerSourceManager = Some \<lparr>mainBuffer = Some toggle_text, mainInvalid = False\<rparr>,
      compilerDiagnostics = new_DiagnosticsEngine,
      compilerPPCallbacks = []\<rparr>"

definition toggle_consumer :: optimizer_consumer where
  "toggle_consumer =
     after_parsing
       (new_OptimizerConsumer toggle_compiler
          \<lparr>mainBuffer = Some toggle_text, mainInvalid = False\<rparr>
          new_SmartRewriter
          (new_RemoveInactivePreprocessorBlocks (macrosToKeep (Optimizer [] [''KEEP''])))
          [])
       [] toggle_macros []"

section \<open>Properties\<close>

subsection \<open>The reachability worklist\<close>

lemma targets_of_default: "us d = None \<Longrightarrow> targets_of (us(d \<mapsto> {})) = targets_of us"
  by (rule ext) (simp add: targets_of_def)

lemma uses_at_targets:
  "uses_at us d = (us1, T) \<Longrightarrow> T = targets_of us d \<and> targets_of us1 = targets_of us"
  by (cases "us d") (auto simp: uses_at_def targets_of_default targets_of_def)

lemma reach_step_new:
  assumes "pop Q \<notin> U"
  shows "\<exists>us1. reach_step pop (us, Q, U) = (us1, (Q - {pop Q}) \<union> targets_of us (pop Q), insert (pop Q) U)
           \<and> targets_of us1 = targets_of us"
proof -
  obtain us1 T where u: "uses_at us (pop Q) = (us1, T)" by (cases "uses_at us (pop Q)")
  from uses_at_targets[OF u] u assms show ?thesis
    by (simp add: reach_step_def Let_def)
qed

lemma reach_step_old:
  "pop Q \<in> U \<Longrightarrow> reach_step pop (us, Q, U) = (us, Q - {pop Q}, U)"
  by (simp add: reach_step_def Let_def)

lemma reach_loop_done: "reach_loop pop (us, {}, U) = Some (us, {}, U)"
  by (subst reach_loop.simps) simp

lemma reach_loop_next: "Q \<noteq> {} \<Longrightarrow> reach_loop pop (us, Q, U) = reach_loop pop (reach_step pop (us, Q, U))"
  by (subst reach_loop.simps) simp

lemma closed_reachable:
  assumes "S \<subseteq> U" "edges us `` U \<subseteq> U" "U \<subseteq> reachable us S"
  shows "U = reachable us S"
proof -
  have "(edges us)\<^sup>* `` U = U" using assms(2) by (rule Image_closed_trancl)
  moreover have "(edges us)\<^sup>* `` S \<subseteq> (edges us)\<^sup>* `` U" using assms(1) by blast
  ultimately show ?thesis using assms(3) by (auto simp: reachable_def)
qed

lemma reachable_targets:
  "d \<in> reachable us S \<Longrightarrow> targets_of us d \<subseteq> reachable us S"
  by (auto simp: reachable_def edges_def intro: rtrancl_into_rtrancl)

lemma work_left_new:
  assumes "finite R" "finite Q" "d \<in> Q" "d \<in> R" "d \<notin> U" 
  shows "work_left us R ((Q - {d}) \<union> targets_of us d) (insert d U) < work_left us R Q U"
proof -
  let ?g = "\<lambda>x. Suc (card (targets_of us x))"
  have "R - insert d U = (R - U) - {d}" by blast
  moreover have "sum ?g (R - U) = ?g d + sum ?g ((R - U) - {d})"
    using assms by (intro sum.remove) auto
  moreover have "card ((Q - {d}) \<union> targets_of us d) \<le> card (Q - {d}) + card (targets_of us d)"
    by (rule card_Un_le)
  moreover have "card (Q - {d}) < card Q" using assms by (intro card_Diff1_less) auto
  ultimately show ?thesis by (simp add: work_left_def)
qed

lemma work_left_old:
  assumes "finite Q" "d \<in> Q"
  shows "work_left us R (Q - {d}) U < work_left us R Q U"
  using card_Diff1_less[OF assms] by (simp add: work_left_def del: card_Diff_insert)

text \<open>
  The invariant of the loop: the seeds are used or queued, everything used or queued is
  reachable, and every target of a used declaration is used or queued.  Each iteration
  lowers \<open>work_left\<close>.
\<close>
lemma reach_loop_run:
  assumes pop: "pops pop"
    and finR: "finite (reachable us0 S0)"
    and fint: "\<forall>d. finite (targets_of us0 d)"
  shows "targets_of us = targets_of us0 \<Longrightarrow> finite Q \<Longrightarrow> S0 \<subseteq> U \<union> Q \<Longrightarrow> U \<union> Q \<subseteq> reachable us0 S0
     \<Longrightarrow> edges us0 `` U \<subseteq> U \<union> Q
     \<Longrightarrow> \<exists>n us'. n \<le> work_left us0 (reachable us0 S0) Q U
            \<and> (reach_step pop ^^ n) (us, Q, U) = (us', {}, reachable us0 S0)
            \<and> reach_loop pop (us, Q, U) = Some (us', {}, reachable us0 S0)
            \<and> targets_of us' = targets_of us0"
proof (induction "work_left us0 (reachable us0 S0) Q U" arbitrary: us Q U rule: less_induct)
  case less
  let ?R = "reachable us0 S0"
  show ?case
  proof (cases "Q = {}")
    case True
    with less.prems have "U = ?R" by (intro closed_reachable) auto
    with True less.prems(1) show ?thesis
      by (intro exI[of _ 0] exI[of _ us]) (simp add: reach_loop_done)
  next
    case False
    with pop less.prems(2) have dQ: "pop Q \<in> Q" by (simp add: pops_def)
    let ?d = "pop Q"
    from dQ less.prems(4) have dR: "?d \<in> ?R" by blast
    have "\<exists>us1 Q1 U1. reach_step pop (us, Q, U) = (us1, Q1, U1) \<and> targets_of us1 = targets_of us0
        \<and> finite Q1 \<and> S0 \<subseteq> U1 \<union> Q1 \<and> U1 \<union> Q1 \<subseteq> ?R \<and> edges us0 `` U1 \<subseteq> U1 \<union> Q1
        \<and> work_left us0 ?R Q1 U1 < work_left us0 ?R Q U"
    proof (cases "?d \<in> U")
      case True
      have "edges us0 `` U \<subseteq> U \<union> (Q - {?d})" using less.prems(5) True by blast
      moreover have "S0 \<subseteq> U \<union> (Q - {?d})" using less.prems(3) True by blast
      ultimately show ?thesis
        using True less.prems dQ by (simp add: reach_step_old work_left_old) blast
    next
      case False
      let ?Q1 = "(Q - {?d}) \<union> targets_of us0 ?d"
      from reach_step_new[of pop Q U us] False less.prems(1) obtain us1 where
        s: "reach_step pop (us, Q, U) = (us1, ?Q1, insert ?d U)" and t: "targets_of us1 = targets_of us0"
        by auto
      have 1: "finite ?Q1" using less.prems(2) fint by simp
      have 2: "S0 \<subseteq> insert ?d U \<union> ?Q1" using less.prems(3) by blast
      have 3: "insert ?d U \<union> ?Q1 \<subseteq> ?R" using less.prems(4) dR reachable_targets[OF dR] by blast
      have 4: "edges us0 `` insert ?d U \<subseteq> insert ?d U \<union> ?Q1"
        using less.prems(5) by (auto simp: edges_def)
      have 5: "work_left us0 ?R ?Q1 (insert ?d U) < work_left us0 ?R Q U"
        using finR less.prems(2) dQ dR False by (rule work_left_new)
      from s t 1 2 3 4 5 show ?thesis by blast
    qed
    then obtain us1 Q1 U1 where s: "reach_step pop (us, Q, U) = (us1, Q1, U1)"
      and t: "targets_of us1 = targets_of us0" and f: "finite Q1" and i2: "S0 \<subseteq> U1 \<union> Q1"
      and i3: "U1 \<union> Q1 \<subseteq> ?R" and i4: "edges us0 `` U1 \<subseteq> U1 \<union> Q1"
      and w: "work_left us0 ?R Q1 U1 < work_left us0 ?R Q U" by blast
    from less.hyps[OF w t f i2 i3 i4] obtain n us' where
      n: "n \<le> work_left us0 ?R Q1 U1" and r: "(reach_step pop ^^ n) (us1, Q1, U1) = (us', {}, ?R)"
      and l: "reach_loop pop (us1, Q1, U1) = Some (us', {}, ?R)" and t': "targets_of us' = targets_of us0"
      by blast
    have "(reach_step pop ^^ Suc n) (us, Q, U) = (us', {}, ?R)"
      using r s by (simp add: funpow_swap1)
    moreover have "reach_loop pop (us, Q, U) = Some (us', {}, ?R)"
      using l s False by (simp add: reach_loop_next)
    moreover have "Suc n \<le> work_left us0 ?R Q U" using n w by simp
    ultimately show ?thesis using t' by blast
  qed
qed

lemma reachable_subset: "reachable us S \<subseteq> S \<union> (\<Union>d \<in> dom us. targets_of us d)"
proof
  fix b assume "b \<in> reachable us S"
  then obtain a where a: "a \<in> S" and r: "(a, b) \<in> (edges us)\<^sup>*" by (auto simp: reachable_def)
  from r show "b \<in> S \<union> (\<Union>d \<in> dom us. targets_of us d)"
  proof (cases rule: rtranclE)
    case base
    with a show ?thesis by simp
  next
    case (step c)
    then have "b \<in> targets_of us c" by (simp add: edges_def)
    then show ?thesis by (auto simp: targets_of_def split: option.splits)
  qed
qed

lemma finite_reachable:
  assumes "finite_info si"
  shows "finite (reachable (uses si) (f ` declsToKeep si))"
proof -
  have "finite (f ` declsToKeep si \<union> (\<Union>d \<in> dom (uses si). targets_of (uses si) d))"
    using assms by (simp add: finite_info_def)
  then show ?thesis by (rule finite_subset[OF reachable_subset])
qed

lemma pops_Min: "pops Min"
  by (simp add: pops_def)

lemma pops_Max: "pops Max"
  by (simp add: pops_def)

lemma reach_from_seeds:
  assumes "finite_info si" "pops pop"
  shows "\<exists>n us'. n \<le> work_left (uses si) (reachable (uses si) (f ` declsToKeep si)) (f ` declsToKeep si) {}
            \<and> (reach_step pop ^^ n) (uses si, f ` declsToKeep si, {}) = (us', {}, reachable (uses si) (f ` declsToKeep si))
            \<and> reach_loop pop (uses si, f ` declsToKeep si, {}) = Some (us', {}, reachable (uses si) (f ` declsToKeep si))
            \<and> targets_of us' = targets_of (uses si)"
proof (rule reach_loop_run[OF assms(2) finite_reachable[OF assms(1)]])
  show "\<forall>d. finite (targets_of (uses si) d)" using assms(1) by (simp add: finite_info_def)
  show "finite (f ` declsToKeep si)" using assms(1) by (simp add: finite_info_def)
  show "{} \<union> f ` declsToKeep si \<subseteq> reachable (uses si) (f ` declsToKeep si)"
    by (auto simp: reachable_def)
qed auto

lemma reachable_paths:
  "reachable us (f ` K) = {d. \<exists>e \<in> K. (f e, d) \<in> (edges us)\<^sup>*}"
  by (auto simp: reachable_def)

lemma find_used_returns:
  assumes "finite_info si"
  shows "\<exists>si' used. find_used canon si = Some (si', used)"
proof -
  from reach_from_seeds[OF assms pops_Min, of canon] show ?thesis
    by (auto simp: find_used_def find_used_by_def)
qed

lemma find_used_value:
  assumes "finite_info si"
  shows "\<exists>us. find_used canon si
           = Some (si\<lparr>uses := us\<rparr>, {d. \<exists>e \<in> declsToKeep si. (canon e, d) \<in> (edges (uses si))\<^sup>*})"
proof -
  from reach_from_seeds[OF assms pops_Min, of canon] show ?thesis
    by (auto simp: find_used_def find_used_by_def reachable_paths)
qed

text \<open>The loop equation, for evaluating the loop on the examples.\<close>
lemma reach_loop_code [code]:
  "reach_loop pop st = (if fst (snd st) = {} then Some st else reach_loop pop (reach_step pop st))"
  by (rule reach_loop.simps)

lemma example_info_finite: "finite_info example_info"
  by (simp add: finite_info_def example_info_def targets_of_def)

lemma example_used:
  "{d. \<exists>e \<in> {7}. (example_canonical e, d) \<in> (edges (uses example_info))\<^sup>*} = {1, 2}"
proof -
  have "map_option snd (find_used example_canonical example_info) = Some {1, 2}"
    by code_simp
  with find_used_value[OF example_info_finite, of example_canonical] show ?thesis
    by (auto simp: example_info_def)
qed

text \<open>
  Claim C1.  The used set computed by the worklist (lines 120--133) is exactly the set of
  declarations reachable from the canonical declarations of \<^verbatim>\<open>declsToKeep\<close> along the
  edges of \<^verbatim>\<open>uses\<close>: \<open>d\<close> is used if and only if some entry point \<open>e\<close> has a path
  from its canonical declaration to \<open>d\<close>.  The set is the same for every way of popping
  the queue, and so for the source's, which pops the least address.
\<close>
theorem used_set_is_reachable_set:
  assumes "finite_info si" and "pops pop"
  shows "map_option snd (find_used_by pop canon si)
           = Some {d. \<exists>e \<in> declsToKeep si. (canon e, d) \<in> (edges (uses si))\<^sup>*}
       \<and> map_option snd (find_used canon si)
           = Some {d. \<exists>e \<in> declsToKeep si. (canon e, d) \<in> (edges (uses si))\<^sup>*}"
proof -
  have "map_option snd (find_used_by p canon si)
           = Some (reachable (uses si) (canon ` declsToKeep si))" if "pops p" for p
    using reach_from_seeds[OF assms(1) that, of canon]
    by (auto simp: find_used_by_def)
  from this[OF assms(2)] this[OF pops_Min] show ?thesis
    by (simp add: find_used_def reachable_paths)
qed

text \<open>
  On the example graph, popping the least and popping the greatest address both end with
  the used set \<open>{1, 2}\<close>, which is the set of declarations with a path from 1.
\<close>
theorem used_set_is_reachable_set_witness:
  "map_option snd (find_used example_canonical example_info) = Some {1, 2}
   \<and> map_option snd (find_used_by Max example_canonical example_info) = Some {1, 2}
   \<and> {d. \<exists>e \<in> declsToKeep example_info.
            (example_canonical e, d) \<in> (edges (uses example_info))\<^sup>*} = {1, 2}"
proof -
  have 1: "map_option snd (find_used example_canonical example_info) = Some {1, 2}"
    by code_simp
  have 2: "map_option snd (find_used_by Max example_canonical example_info) = Some {1, 2}"
    by code_simp
  from used_set_is_reachable_set[OF example_info_finite pops_Max, of example_canonical] 1 2
  show ?thesis by simp
qed

text \<open>
  When canonicalization is idempotent and the collector records canonical declarations
  as targets, every used declaration is canonical.
\<close>
lemma used_are_canonical:
  assumes "finite_info si"
    and idem: "\<forall>e. canon (canon e) = canon e"
    and targets: "\<forall>a. \<forall>b \<in> targets_of (uses si) a. canon b = b"
    and used: "find_used canon si = Some (si', used)"
    and d: "d \<in> used"
  shows "canon d = d"
proof -
  from reach_from_seeds[OF assms(1) pops_Min, of canon] used
  have "used = reachable (uses si) (canon ` declsToKeep si)"
    by (auto simp: find_used_def find_used_by_def)
  with d reachable_subset[of "uses si" "canon ` declsToKeep si"]
  have "d \<in> canon ` declsToKeep si \<or> (\<exists>a. d \<in> targets_of (uses si) a)" by blast
  then show ?thesis using idem targets by auto
qed

text \<open>
  Claim C2.  On a finite graph the worklist loop returns, whatever cycles and self-loops
  the graph has.  The targets of a declaration are pushed only when it enters the used
  set, hence once; so the queue is empty after at most as many iterations as there are
  seeds plus, for every reachable declaration, one more than the number of its targets.
\<close>
theorem worklist_loop_terminates:
  assumes "finite_info si" and "pops pop"
  shows "(\<exists>st. reach_loop pop (uses si, canon ` declsToKeep si, {}) = Some st)
       \<and> (\<exists>r. find_used_by pop canon si = Some r)
       \<and> (\<exists>n \<le> card (canon ` declsToKeep si)
                  + (\<Sum>d \<in> reachable (uses si) (canon ` declsToKeep si). Suc (card (targets_of (uses si) d))).
             fst (snd ((reach_step pop ^^ n) (uses si, canon ` declsToKeep si, {}))) = {})"
proof -
  from reach_from_seeds[OF assms, of canon] obtain n us' where
    n: "n \<le> work_left (uses si) (reachable (uses si) (canon ` declsToKeep si)) (canon ` declsToKeep si) {}"
    and r: "(reach_step pop ^^ n) (uses si, canon ` declsToKeep si, {})
              = (us', {}, reachable (uses si) (canon ` declsToKeep si))"
    and l: "reach_loop pop (uses si, canon ` declsToKeep si, {})
              = Some (us', {}, reachable (uses si) (canon ` declsToKeep si))"
    by blast
  from l have "\<exists>st. reach_loop pop (uses si, canon ` declsToKeep si, {}) = Some st" by blast
  moreover from l have "\<exists>r. find_used_by pop canon si = Some r"
    by (simp add: find_used_by_def)
  moreover from n r have "\<exists>n \<le> card (canon ` declsToKeep si)
                  + (\<Sum>d \<in> reachable (uses si) (canon ` declsToKeep si). Suc (card (targets_of (uses si) d))).
             fst (snd ((reach_step pop ^^ n) (uses si, canon ` declsToKeep si, {}))) = {}"
    by (auto simp: work_left_def intro!: exI[of _ n])
  ultimately show ?thesis by blast
qed

text \<open>The example graph has a cycle and a self-loop; the loop returns with an empty queue.\<close>
theorem worklist_loop_terminates_witness:
  "finite_info example_info \<and> pops Min
   \<and> (\<exists>st. reach_loop Min (uses example_info, example_canonical ` declsToKeep example_info, {}) = Some st)
   \<and> map_option (fst \<circ> snd)
        (reach_loop Min (uses example_info, example_canonical ` declsToKeep example_info, {})) = Some {}
   \<and> fst (snd ((reach_step Min ^^ 3) (uses example_info, example_canonical ` declsToKeep example_info, {})))
        = {2}
   \<and> fst (snd ((reach_step Min ^^ 4) (uses example_info, example_canonical ` declsToKeep example_info, {})))
        = {}"
proof -
  have "map_option (fst \<circ> snd)
        (reach_loop Min (uses example_info, example_canonical ` declsToKeep example_info, {})) = Some {}"
    by code_simp
  moreover have "fst (snd ((reach_step Min ^^ 3)
        (uses example_info, example_canonical ` declsToKeep example_info, {}))) = {2}"
    by code_simp
  moreover have "fst (snd ((reach_step Min ^^ 4)
        (uses example_info, example_canonical ` declsToKeep example_info, {}))) = {}"
    by code_simp
  ultimately show ?thesis
    using worklist_loop_terminates[OF example_info_finite pops_Min, of example_canonical]
      example_info_finite pops_Min
    by blast
qed

subsection \<open>The diagnostics engine during the collection phase\<close>

lemma Report_suppressed: "suppressAllDiagnostics de \<Longrightarrow> fold Report ds de = de"
  by (induction ds) (simp_all add: Report_def)

lemma Report_flag: "suppressAllDiagnostics (fold Report ds de) = suppressAllDiagnostics de"
  by (induction ds arbitrary: de) (simp_all add: Report_def)

lemma Report_unsuppressed:
  "\<not> suppressAllDiagnostics de \<Longrightarrow> reported (fold Report ds de) = reported de @ ds"
  by (induction ds arbitrary: de) (simp_all add: Report_def)

lemma LateTemplateParser_suppressed:
  "suppressAllDiagnostics de \<Longrightarrow> fst (fold (LateTemplateParser C) fs (de, ast)) = de"
proof (induction fs arbitrary: ast)
  case Nil
  show ?case by simp
next
  case (Cons f fs)
  obtain ast1 ds where p: "lateTemplateParser C f ast = (ast1, ds)"
    by (cases "lateTemplateParser C f ast")
  with Cons.prems have "LateTemplateParser C f (de, ast) = (de, ast1)"
    by (simp add: LateTemplateParser_def Report_suppressed)
  with Cons show ?case by simp
qed

lemma collect_dependencies_fields:
  "srcInfo (fst (collect_dependencies C (c, Ctx))) = depsTraverse C (sourceManager c) Ctx (srcInfo c)"
  "sourceManager (fst (collect_dependencies C (c, Ctx))) = sourceManager c"
  "smartRewriter (fst (collect_dependencies C (c, Ctx))) = smartRewriter c"
  "ppCallbacks (fst (collect_dependencies C (c, Ctx))) = ppCallbacks c"
  "stagesRun (fst (collect_dependencies C (c, Ctx))) = stagesRun c @ [CollectDependencies]"
  by (simp_all add: collect_dependencies_def enter_def Let_def split_beta)

lemma collect_dependencies_diagnostics:
  "diagnostics (fst (collect_dependencies C (c, Ctx))) = (diagnostics c)\<lparr>suppressAllDiagnostics := False\<rparr>"
proof -
  have s: "suppressAllDiagnostics ((diagnostics c)\<lparr>suppressAllDiagnostics := True\<rparr>)"
    by simp
  show ?thesis
    by (simp add: collect_dependencies_def enter_def Let_def split_beta setSuppressAllDiagnostics_def
        LateTemplateParser_suppressed[OF s])
qed

lemma collect_dependencies_ast:
  "snd (collect_dependencies C (c, Ctx))
     = snd (fold (LateTemplateParser C)
              (delayedParsedFunctions (depsTraverse C (sourceManager c) Ctx (srcInfo c)))
              (setSuppressAllDiagnostics True (diagnostics c), Ctx))"
  by (simp add: collect_dependencies_def enter_def Let_def split_beta)

subsection \<open>The stages of a run\<close>

lemma compute_used_Some:
  assumes "finite_info (srcInfo c)"
  shows "\<exists>si' used. compute_used C c = Some ((enter ComputeUsedSet c)\<lparr>srcInfo := si'\<rparr>, used)"
  using find_used_returns[OF assms, of "getCanonicalDecl C"]
  by (auto simp: compute_used_def)

lemma schedule_schedule: "schedule es2 (schedule es1 rw) = schedule (es1 @ es2) rw"
  by (simp add: schedule_def)

lemma lexical_prune_fields:
  "sourceManager (fst (lexical_prune C (c, ast) used)) = sourceManager c"
  "ppCallbacks (fst (lexical_prune C (c, ast) used)) = ppCallbacks c"
  "diagnostics (fst (lexical_prune C (c, ast) used)) = diagnostics c"
  "rewriteBuffer (smartRewriter (fst (lexical_prune C (c, ast) used))) = rewriteBuffer (smartRewriter c)"
  "stagesRun (fst (lexical_prune C (c, ast) used)) = stagesRun c @ [LexicalPrune]"
  by (simp_all add: lexical_prune_def enter_def Let_def split_beta schedule_def)

lemma lexical_prune_value:
  assumes "optimizerTraverse C (sourceManager c) ast used (smartRewriter c) = (removed1, es1)"
    and "optimizerFinalize C (sourceManager c) ast used removed1 (schedule es1 (smartRewriter c))
           = (removedDecls, es2)"
  shows "lexical_prune C (c, ast) used
           = ((enter LexicalPrune c)\<lparr>smartRewriter := schedule (es1 @ es2) (smartRewriter c)\<rparr>, removedDecls)"
  using assms by (simp add: lexical_prune_def enter_def Let_def schedule_schedule)

lemma merge_namespaces_fields:
  "sourceManager (merge_namespaces C (c, ast) removed) = sourceManager c"
  "ppCallbacks (merge_namespaces C (c, ast) removed) = ppCallbacks c"
  "diagnostics (merge_namespaces C (c, ast) removed) = diagnostics c"
  "rewriteBuffer (smartRewriter (merge_namespaces C (c, ast) removed)) = rewriteBuffer (smartRewriter c)"
  "stagesRun (merge_namespaces C (c, ast) removed) = stagesRun c @ [NamespaceMerge]"
  by (simp_all add: merge_namespaces_def enter_def Let_def schedule_def)

lemma preprocessor_finalize_fields:
  "sourceManager (preprocessor_finalize c) = sourceManager c"
  "ppCallbacks (preprocessor_finalize c) = ppCallbacks c"
  "diagnostics (preprocessor_finalize c) = diagnostics c"
  "rewriteBuffer (smartRewriter (preprocessor_finalize c)) = rewriteBuffer (smartRewriter c)"
  "stagesRun (preprocessor_finalize c) = stagesRun c @ [PreprocessorFinalize]"
  "edits (smartRewriter (preprocessor_finalize c))
     = edits (smartRewriter c) @ Finalize (ppCallbacks c) (smartRewriter c)"
  by (simp_all add: preprocessor_finalize_def enter_def Let_def schedule_def)

text \<open>The applier and \<^verbatim>\<open>Finalize\<close> when there is nothing to do.\<close>
lemma apply_edits_Nil: "apply_edits [] buf = buf"
proof -
  have "concat (map (\<lambda>i. [buf ! i]) [0..<length buf]) = buf"
    by (simp add: map_nth)
  then show ?thesis by (simp add: apply_edits_def)
qed

lemma Finalize_Nil:
  assumes "list_all branchTaken (branches pp)" and "dead_macros pp rw = []"
  shows "Finalize pp rw = []"
  using assms by (simp add: Finalize_def list_all_iff filter_empty_conv)

lemma applyChanges_edits: "edits (applyChanges sm rw) = edits rw"
  by (simp add: applyChanges_def split: option.splits)

lemma apply_changes_fields:
  "sourceManager (apply_changes c) = sourceManager c"
  "ppCallbacks (apply_changes c) = ppCallbacks c"
  "diagnostics (apply_changes c) = diagnostics c"
  "stagesRun (apply_changes c) = stagesRun c @ [ApplyEdits]"
  "edits (smartRewriter (apply_changes c)) = edits (smartRewriter c)"
  by (simp_all add: apply_changes_def enter_def Let_def applyChanges_edits)

lemma apply_changes_rewriter:
  "smartRewriter (apply_changes c) = applyChanges (sourceManager c) (smartRewriter c)"
  by (simp add: apply_changes_def enter_def Let_def)

lemma getResult_enter: "getResult (enter s c) = getResult c"
  by (simp add: getResult_def enter_def cong: option.case_cong)

lemma getResult_same:
  "smartRewriter a = smartRewriter b \<Longrightarrow> sourceManager a = sourceManager b \<Longrightarrow> getResult a = getResult b"
  by (simp add: getResult_def cong: option.case_cong)

lemma return_text_result: "result (return_text c) = getResult c"
  by (simp add: return_text_def Let_def getResult_enter)

lemma return_text_fields:
  "sourceManager (return_text c) = sourceManager c"
  "ppCallbacks (return_text c) = ppCallbacks c"
  "diagnostics (return_text c) = diagnostics c"
  "smartRewriter (return_text c) = smartRewriter c"
  "stagesRun (return_text c) = stagesRun c @ [ReturnText]"
  by (simp_all add: return_text_def enter_def Let_def)

lemma decide_removals_returns:
  assumes "finite_info (depsTraverse C (sourceManager c) Ctx (srcInfo c))"
  shows "\<exists>c4 ast. decide_removals C c Ctx = Some (c4, ast)
           \<and> sourceManager c4 = sourceManager c
           \<and> ppCallbacks c4 = ppCallbacks c
           \<and> rewriteBuffer (smartRewriter c4) = rewriteBuffer (smartRewriter c)
           \<and> stagesRun c4 = stagesRun c @ [CollectDependencies, ComputeUsedSet, LexicalPrune, NamespaceMerge]"
proof -
  obtain c1 ast where 1: "collect_dependencies C (c, Ctx) = (c1, ast)"
    by (cases "collect_dependencies C (c, Ctx)")
  then have c1: "c1 = fst (collect_dependencies C (c, Ctx))" by simp
  have "finite_info (srcInfo c1)" using assms by (simp add: c1 collect_dependencies_fields)
  from compute_used_Some[OF this, of C] obtain si' used where
    2: "compute_used C c1 = Some ((enter ComputeUsedSet c1)\<lparr>srcInfo := si'\<rparr>, used)" by blast
  let ?c2 = "(enter ComputeUsedSet c1)\<lparr>srcInfo := si'\<rparr>"
  obtain c3 removedDecls where 3: "lexical_prune C (?c2, ast) used = (c3, removedDecls)"
    by (cases "lexical_prune C (?c2, ast) used")
  then have c3: "c3 = fst (lexical_prune C (?c2, ast) used)" by simp
  have "decide_removals C c Ctx = Some (merge_namespaces C (c3, ast) removedDecls, ast)"
    by (simp add: decide_removals_def 1 2 3)
  then show ?thesis
    by (simp add: merge_namespaces_fields c3 lexical_prune_fields enter_def c1 collect_dependencies_fields)
qed

lemma example_collected_finite:
  "finite keep \<Longrightarrow>
   finite_info (depsTraverse (example_passes keep) (sourceManager example_consumer) 0 (srcInfo example_consumer))"
  by (simp add: example_passes_def finite_info_def example_info_def targets_of_def)

text \<open>What a run computes, stage by stage.\<close>
lemma HandleTranslationUnit_flow:
  assumes fin: "finite_info si"
    and si: "si = depsTraverse C (sourceManager c) Ctx (srcInfo c)"
    and ast: "ast = snd (fold (LateTemplateParser C) (delayedParsedFunctions si)
                          (setSuppressAllDiagnostics True (diagnostics c), Ctx))"
    and used: "used = {d. \<exists>e \<in> declsToKeep si. (getCanonicalDecl C e, d) \<in> (edges (uses si))\<^sup>*}"
    and trav: "optimizerTraverse C (sourceManager c) ast used (smartRewriter c) = (removed1, es1)"
    and fini: "optimizerFinalize C (sourceManager c) ast used removed1 (schedule es1 (smartRewriter c))
                 = (removedDecls, es2)"
    and merg: "es3 = mergeNamespacesTraverse C (sourceManager c) ast removedDecls
                       (schedule (es1 @ es2) (smartRewriter c))"
    and fina: "es4 = Finalize (ppCallbacks c) (schedule (es1 @ es2 @ es3) (smartRewriter c))"
  shows "\<exists>c'. HandleTranslationUnit C c Ctx = Some (c', ast)
           \<and> smartRewriter c'
               = applyChanges (sourceManager c) (schedule (es1 @ es2 @ es3 @ es4) (smartRewriter c))
           \<and> result c'
               = getResult (c\<lparr>smartRewriter :=
                   applyChanges (sourceManager c) (schedule (es1 @ es2 @ es3 @ es4) (smartRewriter c))\<rparr>)
           \<and> stagesRun c'
               = stagesRun c @ [CollectDependencies, ComputeUsedSet, LexicalPrune, NamespaceMerge,
                                PreprocessorFinalize, ApplyEdits, ReturnText]
           \<and> diagnostics c' = (diagnostics c)\<lparr>suppressAllDiagnostics := False\<rparr>
           \<and> sourceManager c' = sourceManager c
           \<and> ppCallbacks c' = ppCallbacks c"
proof -
  let ?rw = "smartRewriter c" and ?sm = "sourceManager c"
  obtain c1 where 1: "collect_dependencies C (c, Ctx) = (c1, ast)"
    using collect_dependencies_ast[of C c Ctx] by (cases "collect_dependencies C (c, Ctx)") (simp add: ast si)
  then have c1: "c1 = fst (collect_dependencies C (c, Ctx))" by simp
  have i1: "srcInfo c1 = si" by (simp add: c1 si collect_dependencies_fields)
  from find_used_value[OF fin, of "getCanonicalDecl C"] obtain us where
    "find_used (getCanonicalDecl C) si = Some (si\<lparr>uses := us\<rparr>, used)" by (auto simp: used)
  then have 2: "compute_used C c1
                  = Some ((enter ComputeUsedSet c1)\<lparr>srcInfo := si\<lparr>uses := us\<rparr>\<rparr>, used)"
    by (simp add: compute_used_def i1)
  let ?c2 = "(enter ComputeUsedSet c1)\<lparr>srcInfo := si\<lparr>uses := us\<rparr>\<rparr>"
  have f2: "sourceManager ?c2 = ?sm" "smartRewriter ?c2 = ?rw" "ppCallbacks ?c2 = ppCallbacks c"
    "stagesRun ?c2 = stagesRun c @ [CollectDependencies, ComputeUsedSet]"
    by (simp_all add: enter_def c1 collect_dependencies_fields)
  let ?c3 = "(enter LexicalPrune ?c2)\<lparr>smartRewriter := schedule (es1 @ es2) ?rw\<rparr>"
  have 3: "lexical_prune C (?c2, ast) used = (?c3, removedDecls)"
    using lexical_prune_value[of C ?c2 ast used removed1 es1 removedDecls es2] trav fini
    by (simp only: f2)
  have f3: "sourceManager ?c3 = ?sm" "smartRewriter ?c3 = schedule (es1 @ es2) ?rw"
    "ppCallbacks ?c3 = ppCallbacks c"
    "stagesRun ?c3 = stagesRun c @ [CollectDependencies, ComputeUsedSet, LexicalPrune]"
    using f2 by (simp_all add: enter_def)
  let ?c4 = "merge_namespaces C (?c3, ast) removedDecls"
  have f4: "sourceManager ?c4 = ?sm" "smartRewriter ?c4 = schedule (es1 @ es2 @ es3) ?rw"
    "ppCallbacks ?c4 = ppCallbacks c"
    "stagesRun ?c4 = stagesRun c @ [CollectDependencies, ComputeUsedSet, LexicalPrune, NamespaceMerge]"
    using f3 by (simp_all add: merge_namespaces_def enter_def Let_def schedule_schedule merg)
  let ?c5 = "preprocessor_finalize ?c4"
  have f5: "sourceManager ?c5 = ?sm" "smartRewriter ?c5 = schedule (es1 @ es2 @ es3 @ es4) ?rw"
    "stagesRun ?c5 = stagesRun ?c4 @ [PreprocessorFinalize]"
    using f4 by (simp_all add: preprocessor_finalize_def enter_def Let_def schedule_schedule fina)
  let ?c6 = "apply_changes ?c5"
  have f6: "sourceManager ?c6 = ?sm"
    "smartRewriter ?c6 = applyChanges ?sm (schedule (es1 @ es2 @ es3 @ es4) ?rw)"
    "stagesRun ?c6 = stagesRun ?c5 @ [ApplyEdits]"
    using f5 by (simp_all add: apply_changes_rewriter apply_changes_fields)
  let ?c' = "return_text ?c6"
  have h: "HandleTranslationUnit C c Ctx = Some (?c', ast)"
    by (simp add: HandleTranslationUnit_def schedule_edits_def decide_removals_def 1 2 3)
  have r: "smartRewriter ?c' = applyChanges ?sm (schedule (es1 @ es2 @ es3 @ es4) ?rw)"
    using f6 by (simp add: return_text_fields)
  have "getResult ?c6
          = getResult (c\<lparr>smartRewriter := applyChanges ?sm (schedule (es1 @ es2 @ es3 @ es4) ?rw)\<rparr>)"
    using f6 by (intro getResult_same) simp_all
  then have t: "result ?c'
          = getResult (c\<lparr>smartRewriter := applyChanges ?sm (schedule (es1 @ es2 @ es3 @ es4) ?rw)\<rparr>)"
    by (simp add: return_text_result)
  have s: "stagesRun ?c' = stagesRun c @ [CollectDependencies, ComputeUsedSet, LexicalPrune,
             NamespaceMerge, PreprocessorFinalize, ApplyEdits, ReturnText]"
    using f4 f5 f6 by (simp add: return_text_fields)
  have d: "diagnostics ?c' = (diagnostics c)\<lparr>suppressAllDiagnostics := False\<rparr>"
    by (simp add: return_text_fields apply_changes_fields preprocessor_finalize_fields
        merge_namespaces_fields enter_def c1 collect_dependencies_diagnostics)
  have m: "sourceManager ?c' = sourceManager c" "ppCallbacks ?c' = ppCallbacks c"
    using f4 by (simp_all add: return_text_fields apply_changes_fields preprocessor_finalize_fields)
  from h r t s d m show ?thesis by blast
qed

lemma HandleTranslationUnit_diagnostics:
  assumes "finite_info (depsTraverse C (sourceManager c) Ctx (srcInfo c))"
  shows "\<exists>c' ast. HandleTranslationUnit C c Ctx = Some (c', ast)
           \<and> diagnostics c' = (diagnostics c)\<lparr>suppressAllDiagnostics := False\<rparr>"
proof -
  let ?si = "depsTraverse C (sourceManager c) Ctx (srcInfo c)"
  let ?ast = "snd (fold (LateTemplateParser C) (delayedParsedFunctions ?si)
                     (setSuppressAllDiagnostics True (diagnostics c), Ctx))"
  let ?used = "{d. \<exists>e \<in> declsToKeep ?si. (getCanonicalDecl C e, d) \<in> (edges (uses ?si))\<^sup>*}"
  obtain removed1 es1 where t: "optimizerTraverse C (sourceManager c) ?ast ?used (smartRewriter c) = (removed1, es1)"
    by (cases "optimizerTraverse C (sourceManager c) ?ast ?used (smartRewriter c)")
  obtain removedDecls es2 where f: "optimizerFinalize C (sourceManager c) ?ast ?used removed1
       (schedule es1 (smartRewriter c)) = (removedDecls, es2)"
    by (cases "optimizerFinalize C (sourceManager c) ?ast ?used removed1 (schedule es1 (smartRewriter c))")
  from HandleTranslationUnit_flow[OF assms refl refl refl t f refl refl] show ?thesis by blast
qed

lemma toggle_consumer_fields:
  "sourceManager toggle_consumer = \<lparr>mainBuffer = Some toggle_text, mainInvalid = False\<rparr>"
  "smartRewriter toggle_consumer = new_SmartRewriter"
  "ppCallbacks toggle_consumer = \<lparr>keepList = {''KEEP''}, branches = [], macros = toggle_macros\<rparr>"
  "diagnostics toggle_consumer = new_DiagnosticsEngine"
  "srcInfo toggle_consumer = \<lparr>uses = Map.empty, declsToKeep = {}, delayedParsedFunctions = []\<rparr>"
  "stagesRun toggle_consumer = []"
  by (simp_all add: toggle_consumer_def after_parsing_def new_OptimizerConsumer_def toggle_compiler_def
      new_RemoveInactivePreprocessorBlocks_def Optimizer_def)

lemma toggle_made:
  "CreateASTConsumer
     (create \<lparr>factoryResult = [], factoryMacrosToKeep = macrosToKeep (Optimizer [] [''KEEP''])\<rparr>)
     toggle_compiler
   = (addPPCallbacks (new_RemoveInactivePreprocessorBlocks {''KEEP''}) toggle_compiler,
      Inr (new_OptimizerConsumer toggle_compiler \<lparr>mainBuffer = Some toggle_text, mainInvalid = False\<rparr>
             new_SmartRewriter (new_RemoveInactivePreprocessorBlocks (macrosToKeep (Optimizer [] [''KEEP''])))
             []))"
  by (simp add: CreateASTConsumer_def create_def toggle_compiler_def Let_def Optimizer_def)

lemma toggle_info:
  "finite_info (example_info\<lparr>declsToKeep := {7}\<rparr>)"
  "example_info\<lparr>declsToKeep := {7}\<rparr>
     = depsTraverse toggle_passes (sourceManager toggle_consumer) 0 (srcInfo toggle_consumer)"
  by (simp_all add: finite_info_def example_info_def targets_of_def toggle_passes_def example_passes_def)

lemma toggle_ast:
  "(2::nat) = snd (fold (LateTemplateParser toggle_passes)
                     (delayedParsedFunctions (example_info\<lparr>declsToKeep := {7}\<rparr>))
                     (setSuppressAllDiagnostics True (diagnostics toggle_consumer), 0))"
  by (simp add: example_info_def LateTemplateParser_def toggle_passes_def example_passes_def)

lemma toggle_used:
  "{1, 2} = {d. \<exists>e \<in> declsToKeep (example_info\<lparr>declsToKeep := {7}\<rparr>).
                 (getCanonicalDecl toggle_passes e, d) \<in> (edges (uses (example_info\<lparr>declsToKeep := {7}\<rparr>)))\<^sup>*}"
  using example_used by (simp add: toggle_passes_def example_passes_def)

lemma toggle_prune:
  "optimizerTraverse toggle_passes (sourceManager toggle_consumer) 2 {1, 2} (smartRewriter toggle_consumer)
     = ({3}, [DeleteRange 29 54])"
  "optimizerFinalize toggle_passes (sourceManager toggle_consumer) 2 {1, 2} {3}
     (schedule [DeleteRange 29 54] (smartRewriter toggle_consumer)) = ({3}, [])"
  "[] = mergeNamespacesTraverse toggle_passes (sourceManager toggle_consumer) 2 {3}
          (schedule ([DeleteRange 29 54] @ []) (smartRewriter toggle_consumer))"
  by (simp_all add: toggle_passes_def example_passes_def)

lemma toggle_dead:
  "dead_macros (ppCallbacks toggle_consumer)
     (schedule ([DeleteRange 29 54] @ [] @ []) (smartRewriter toggle_consumer))
   = [\<lparr>macroName = ''TMP'', definitionRange = (15, 28), expansionSites = [(49, 52)]\<rparr>]"
  by (simp add: toggle_consumer_fields dead_macros_def toggle_macros_def inside_removed_def schedule_def
      new_SmartRewriter_def)

lemma toggle_finalize:
  "[DeleteRange 15 28]
     = Finalize (ppCallbacks toggle_consumer)
         (schedule ([DeleteRange 29 54] @ [] @ []) (smartRewriter toggle_consumer))"
  using toggle_dead by (simp add: Finalize_def delete_range_def toggle_consumer_fields)

lemma toggle_output:
  "apply_edits ([DeleteRange 29 54] @ [] @ [] @ [DeleteRange 15 28]) toggle_text
     = ''#define KEEP 1'' @ [CHR 0x0A, CHR 0x0A] @ '' int main(){return 0;}''"
  by code_simp

text \<open>
  Claim C7.  Every run on a finite collected graph goes through the stages in the order
  collect dependencies, compute used set, lexical prune, namespace merge, preprocessor
  finalize, apply edits, return text, and each stage works on what the stages before it
  have produced.  The used set is computed from the graph that the collector has built;
  the pruner is given that used set and the AST that the forced parsing leaves; the
  namespace merger is given the removed declarations of the pruner and a rewriter that
  holds the pruner's edits.  \<^verbatim>\<open>Finalize\<close> is called after that, when the removed set is
  not written any more, on the rewriter that holds the edits of the pruner and the merger
  and on the facts that the callbacks recorded before the run (the tracker of the consumer
  on entry).  The applier applies the edits of the four passes in this order, and the
  returned text is read from the rewriter that the applier leaves.
\<close>
theorem stages_in_fixed_order:
  assumes fin: "finite_info si"
    and si: "si = depsTraverse C (sourceManager c) Ctx (srcInfo c)"
    and ast: "ast = snd (fold (LateTemplateParser C) (delayedParsedFunctions si)
                          (setSuppressAllDiagnostics True (diagnostics c), Ctx))"
    and used: "used = {d. \<exists>e \<in> declsToKeep si. (getCanonicalDecl C e, d) \<in> (edges (uses si))\<^sup>*}"
    and trav: "optimizerTraverse C (sourceManager c) ast used (smartRewriter c) = (removed1, es1)"
    and fini: "optimizerFinalize C (sourceManager c) ast used removed1 (schedule es1 (smartRewriter c))
                 = (removedDecls, es2)"
    and merg: "es3 = mergeNamespacesTraverse C (sourceManager c) ast removedDecls
                       (schedule (es1 @ es2) (smartRewriter c))"
    and fina: "es4 = Finalize (ppCallbacks c) (schedule (es1 @ es2 @ es3) (smartRewriter c))"
  shows "\<exists>c'. HandleTranslationUnit C c Ctx = Some (c', ast)
           \<and> smartRewriter c'
               = applyChanges (sourceManager c) (schedule (es1 @ es2 @ es3 @ es4) (smartRewriter c))
           \<and> result c'
               = getResult (c\<lparr>smartRewriter :=
                   applyChanges (sourceManager c) (schedule (es1 @ es2 @ es3 @ es4) (smartRewriter c))\<rparr>)
           \<and> stagesRun c'
               = stagesRun c @ [CollectDependencies, ComputeUsedSet, LexicalPrune, NamespaceMerge,
                                PreprocessorFinalize, ApplyEdits, ReturnText]"
  using HandleTranslationUnit_flow[OF fin si ast used trav fini merg fina] by blast

text \<open>
  The file with the two macros: the pruner deletes \<^verbatim>\<open>unused\<close>, and \<^verbatim>\<open>Finalize\<close>,
  running after it, finds the only expansion of \<^verbatim>\<open>TMP\<close> removed and deletes its
  definition; both edits are applied.
\<close>
theorem stages_in_fixed_order_witness:
  "map_option snd (HandleTranslationUnit toggle_passes toggle_consumer 0) = Some 2
   \<and> map_option (smartRewriter \<circ> fst) (HandleTranslationUnit toggle_passes toggle_consumer 0)
       = Some \<lparr>edits = [DeleteRange 29 54, DeleteRange 15 28],
                rewriteBuffer = Some (''#define KEEP 1'' @ [CHR 0x0A, CHR 0x0A] @ '' int main(){return 0;}'')\<rparr>
   \<and> map_option (result \<circ> fst) (HandleTranslationUnit toggle_passes toggle_consumer 0)
       = Some (''#define KEEP 1'' @ [CHR 0x0A, CHR 0x0A] @ '' int main(){return 0;}'')
   \<and> map_option (stagesRun \<circ> fst) (HandleTranslationUnit toggle_passes toggle_consumer 0)
       = Some [CollectDependencies, ComputeUsedSet, LexicalPrune, NamespaceMerge,
               PreprocessorFinalize, ApplyEdits, ReturnText]"
proof -
  have rw: "applyChanges (sourceManager toggle_consumer)
              (schedule ([DeleteRange 29 54] @ [] @ [] @ [DeleteRange 15 28]) (smartRewriter toggle_consumer))
            = \<lparr>edits = [DeleteRange 29 54, DeleteRange 15 28],
               rewriteBuffer = Some (''#define KEEP 1'' @ [CHR 0x0A, CHR 0x0A] @ '' int main(){return 0;}'')\<rparr>"
    using toggle_output
    by (simp add: toggle_consumer_fields applyChanges_def schedule_def new_SmartRewriter_def)
  from stages_in_fixed_order[OF toggle_info toggle_ast toggle_used toggle_prune toggle_finalize] rw
  show ?thesis by (auto simp: getResult_def getRewriteBufferFor_def toggle_consumer_fields)
qed

subsection \<open>The returned text\<close>

text \<open>The branch of \<^verbatim>\<open>getResult\<close> that the source marks \<^verbatim>\<open>// No changes\<close>.\<close>
lemma getResult_no_changes:
  assumes "getRewriteBufferFor (smartRewriter c) = None"
    and "mainBuffer (sourceManager c) = Some b" and "\<not> mainInvalid (sourceManager c)"
  shows "getResult c = b"
  using assms by (simp add: getResult_def getBuffer_def)

lemma getResult_applied:
  assumes "smartRewriter c = new_SmartRewriter"
    and "mainBuffer (sourceManager c) = Some txt" and "\<not> mainInvalid (sourceManager c)"
  shows "getResult (c\<lparr>smartRewriter := applyChanges (sourceManager c) (schedule es (smartRewriter c))\<rparr>)
           = apply_edits es txt"
proof (cases "es = []")
  case True
  with assms show ?thesis
    by (simp add: getResult_def getRewriteBufferFor_def applyChanges_def schedule_def
        new_SmartRewriter_def getBuffer_def apply_edits_Nil)
next
  case False
  with assms show ?thesis
    by (simp add: getResult_def getRewriteBufferFor_def applyChanges_def schedule_def
        new_SmartRewriter_def)
qed

text \<open>
  Claim C3.  If no pass schedules an edit, the text stored in \<^verbatim>\<open>result\<close> is the main
  file's buffer, byte for byte.  The consumer starts with the rewriter its constructor is
  given, and the main buffer exists and is valid.
\<close>
theorem identity_law:
  assumes fin: "finite_info (depsTraverse C (sourceManager c) Ctx (srcInfo c))"
    and fresh: "smartRewriter c = new_SmartRewriter"
    and buf: "mainBuffer (sourceManager c) = Some txt" "\<not> mainInvalid (sourceManager c)"
    and none: "\<forall>c5 ast. schedule_edits C c Ctx = Some (c5, ast) \<longrightarrow> edits (smartRewriter c5) = []"
  shows "\<exists>c' ast. HandleTranslationUnit C c Ctx = Some (c', ast) \<and> result c' = txt"
proof -
  from decide_removals_returns[OF fin] obtain c4 ast where
    d: "decide_removals C c Ctx = Some (c4, ast)"
    and sm: "sourceManager c4 = sourceManager c"
    and rb: "rewriteBuffer (smartRewriter c4) = rewriteBuffer (smartRewriter c)"
    by blast
  let ?c5 = "preprocessor_finalize c4"
  have s: "schedule_edits C c Ctx = Some (?c5, ast)" by (simp add: schedule_edits_def d)
  with none have e: "edits (smartRewriter ?c5) = []" by blast
  have "rewriteBuffer (smartRewriter ?c5) = None"
    by (simp add: preprocessor_finalize_fields rb fresh new_SmartRewriter_def)
  with e have "getRewriteBufferFor (smartRewriter (apply_changes ?c5)) = None"
    by (simp add: apply_changes_rewriter applyChanges_def getRewriteBufferFor_def)
  moreover have "sourceManager (apply_changes ?c5) = sourceManager c"
    by (simp add: apply_changes_fields preprocessor_finalize_fields sm)
  ultimately have "getResult (apply_changes ?c5) = txt"
    using buf by (intro getResult_no_changes) simp_all
  then have "result (return_text (apply_changes ?c5)) = txt" by (simp add: return_text_result)
  moreover have "HandleTranslationUnit C c Ctx = Some (return_text (apply_changes ?c5), ast)"
    by (simp add: HandleTranslationUnit_def s)
  ultimately show ?thesis by blast
qed

text \<open>
  With \<^verbatim>\<open>unused\<close> pinned as an entry point nothing is scheduled and the text is returned
  as it is.
\<close>
theorem identity_law_witness:
  "map_option (edits \<circ> smartRewriter \<circ> fst) (schedule_edits (example_passes {7, 3}) example_consumer 0)
     = Some []
   \<and> map_option (result \<circ> fst) (HandleTranslationUnit (example_passes {7, 3}) example_consumer 0)
     = Some ''int unused(){return 1;} int main(){return 0;}''"
proof -
  have f: "finite_info (depsTraverse (example_passes {7, 3}) (sourceManager example_consumer) 0
             (srcInfo example_consumer))"
    by (rule example_collected_finite) simp
  have e: "map_option (edits \<circ> smartRewriter \<circ> fst)
             (schedule_edits (example_passes {7, 3}) example_consumer 0) = Some []"
    by code_simp
  then have n: "\<forall>c5 ast. schedule_edits (example_passes {7, 3}) example_consumer 0 = Some (c5, ast)
                  \<longrightarrow> edits (smartRewriter c5) = []"
    by auto
  have b: "mainBuffer (sourceManager example_consumer) = Some ''int unused(){return 1;} int main(){return 0;}''"
    "\<not> mainInvalid (sourceManager example_consumer)"
    "smartRewriter example_consumer = new_SmartRewriter"
    by (simp_all add: example_consumer_def new_OptimizerConsumer_def example_text_def)
  from identity_law[OF f b(3) b(1) b(2) n] e show ?thesis by auto
qed

text \<open>
  Claim C4.  When there is no rewrite buffer and the main buffer is missing or invalid,
  \<^verbatim>\<open>getResult\<close> returns the one string \<^verbatim>\<open>"Inliner error"\<close>; it has no branch that
  throws.
\<close>
theorem getResult_degraded:
  assumes "getRewriteBufferFor (smartRewriter c) = None"
    and "mainBuffer (sourceManager c) = None \<or> mainInvalid (sourceManager c)"
  shows "getResult c = ''Inliner error''"
  using assms by (auto simp: getResult_def getBuffer_def split: option.splits)

text \<open>A missing buffer and an invalid buffer give the same string.\<close>
theorem getResult_degraded_witness:
  "getResult (example_consumer\<lparr>sourceManager := \<lparr>mainBuffer = None, mainInvalid = False\<rparr>\<rparr>)
     = ''Inliner error''
   \<and> getResult (example_consumer\<lparr>sourceManager := \<lparr>mainBuffer = Some example_text, mainInvalid = True\<rparr>\<rparr>)
     = ''Inliner error''"
  using getResult_degraded[of "example_consumer\<lparr>sourceManager := \<lparr>mainBuffer = None, mainInvalid = False\<rparr>\<rparr>"]
    getResult_degraded[of "example_consumer\<lparr>sourceManager := \<lparr>mainBuffer = Some example_text, mainInvalid = True\<rparr>\<rparr>"]
  by (simp add: example_consumer_def new_OptimizerConsumer_def new_SmartRewriter_def getRewriteBufferFor_def)

subsection \<open>Creating the consumer\<close>

text \<open>
  Claim C10.  Without a source manager \<^verbatim>\<open>CreateASTConsumer\<close> throws
  \<^verbatim>\<open>"No source manager"\<close> and the compiler instance is as before: no callback has been
  registered.  With one it returns a consumer, holding a new rewriter and the tracker it
  has registered.  A consumer is returned if and only if there is a source manager.
\<close>
theorem CreateASTConsumer_needs_source_manager:
  "(\<not> hasSourceManager compiler \<longrightarrow>
       CreateASTConsumer a compiler = (compiler, Inl (CString ''No source manager'')))
   \<and> (hasSourceManager compiler \<longrightarrow>
       (\<exists>consumer. CreateASTConsumer a compiler = (addPPCallbacks (ppCallbacks consumer) compiler, Inr consumer)
          \<and> smartRewriter consumer = new_SmartRewriter
          \<and> ppCallbacks consumer = new_RemoveInactivePreprocessorBlocks (actionMacrosToKeep a)))
   \<and> ((\<exists>compiler' consumer. CreateASTConsumer a compiler = (compiler', Inr consumer))
         = hasSourceManager compiler)"
  by (cases "compilerSourceManager compiler")
    (simp_all add: CreateASTConsumer_def hasSourceManager_def Let_def new_OptimizerConsumer_def)

text \<open>The example compiler with and without its source manager.\<close>
theorem CreateASTConsumer_needs_source_manager_witness:
  "CreateASTConsumer (create \<lparr>factoryResult = [], factoryMacrosToKeep = {}\<rparr>)
       (example_compiler\<lparr>compilerSourceManager := None\<rparr>)
     = (example_compiler\<lparr>compilerSourceManager := None\<rparr>, Inl (CString ''No source manager''))
   \<and> hasSourceManager example_compiler
   \<and> (\<exists>compiler' consumer.
         CreateASTConsumer (create \<lparr>factoryResult = [], factoryMacrosToKeep = {}\<rparr>) example_compiler
           = (compiler', Inr consumer))"
  using CreateASTConsumer_needs_source_manager[of "example_compiler\<lparr>compilerSourceManager := None\<rparr>"
      "create \<lparr>factoryResult = [], factoryMacrosToKeep = {}\<rparr>"]
    CreateASTConsumer_needs_source_manager[of example_compiler
      "create \<lparr>factoryResult = [], factoryMacrosToKeep = {}\<rparr>"]
  by (auto simp: hasSourceManager_def example_compiler_def)

lemma CreateASTConsumer_keepList:
  assumes "CreateASTConsumer a compiler = (compiler', Inr consumer)"
  shows "keepList (ppCallbacks consumer) = actionMacrosToKeep a"
  using assms
  by (auto simp: CreateASTConsumer_def Let_def new_OptimizerConsumer_def
      new_RemoveInactivePreprocessorBlocks_def split: option.splits)

lemma CreateASTConsumer_value:
  "CreateASTConsumer (create factory)
       \<lparr>compilerSourceManager = Some sm, compilerDiagnostics = de, compilerPPCallbacks = cbs\<rparr>
     = (\<lparr>compilerSourceManager = Some sm, compilerDiagnostics = de,
          compilerPPCallbacks = cbs @ [new_RemoveInactivePreprocessorBlocks (factoryMacrosToKeep factory)]\<rparr>,
        Inr \<lparr>diagnostics = de, sourceManager = sm, smartRewriter = new_SmartRewriter,
             ppCallbacks = new_RemoveInactivePreprocessorBlocks (factoryMacrosToKeep factory),
             result = factoryResult factory,
             srcInfo = \<lparr>uses = Map.empty, declsToKeep = {}, delayedParsedFunctions = []\<rparr>,
             stagesRun = []\<rparr>)"
  by (simp add: CreateASTConsumer_def create_def new_OptimizerConsumer_def addPPCallbacks_def Let_def)

lemma after_parsing_fields:
  "diagnostics (after_parsing consumer bs ms ds) = fold Report ds (diagnostics consumer)"
  "sourceManager (after_parsing consumer bs ms ds) = sourceManager consumer"
  "smartRewriter (after_parsing consumer bs ms ds) = smartRewriter consumer"
  "srcInfo (after_parsing consumer bs ms ds) = srcInfo consumer"
  "result (after_parsing consumer bs ms ds) = result consumer"
  "stagesRun (after_parsing consumer bs ms ds) = stagesRun consumer"
  "keepList (ppCallbacks (after_parsing consumer bs ms ds)) = keepList (ppCallbacks consumer)"
  "branches (ppCallbacks (after_parsing consumer bs ms ds)) = bs"
  "macros (ppCallbacks (after_parsing consumer bs ms ds)) = ms"
  by (simp_all add: after_parsing_def)

subsection \<open>Forced parsing in a run of the tool\<close>

lemma tool_run_single:
  assumes "process_file F C opts factory file = Some (Returned ret text, consumer)"
  shows "tool_run F C opts [file] factory = Some (Returned ret text, consumer)"
  using assms by simp

lemma process_file_value:
  assumes ctx: "setupFor F opts file = Some (Some sm)"
    and prs: "parseFile F opts file = (Ctx, bs, ms, ds)"
    and htu: "HandleTranslationUnit C
                (after_parsing
                   \<lparr>diagnostics = new_DiagnosticsEngine, sourceManager = sm, smartRewriter = new_SmartRewriter,
                    ppCallbacks = new_RemoveInactivePreprocessorBlocks (factoryMacrosToKeep factory),
                    result = factoryResult factory,
                    srcInfo = \<lparr>uses = Map.empty, declsToKeep = {}, delayedParsedFunctions = []\<rparr>,
                    stagesRun = []\<rparr> bs ms ds) Ctx = Some (c', ast)"
  shows "process_file F C opts factory file
           = Some (Returned (run_status (isError F) (diagnostics c')) (result c'), Some c')"
  using assms by (simp add: process_file_def CreateASTConsumer_value)

lemma example_entry_consumer:
  "CreateASTConsumer (create \<lparr>factoryResult = [], factoryMacrosToKeep = macrosToKeep (Optimizer [] [''NDEBUG''])\<rparr>)
      \<lparr>compilerSourceManager = Some \<lparr>mainBuffer = Some example_text, mainInvalid = False\<rparr>,
       compilerDiagnostics = new_DiagnosticsEngine, compilerPPCallbacks = []\<rparr>
   = (addPPCallbacks (new_RemoveInactivePreprocessorBlocks {''NDEBUG''}) example_compiler, Inr example_consumer)"
  by (simp add: CreateASTConsumer_value example_consumer_def example_compiler_def Optimizer_def
      new_OptimizerConsumer_def new_DiagnosticsEngine_def addPPCallbacks_def)

lemma example_run_text:
  "doOptimize example_run (Optimizer [] [''NDEBUG'']) ''a.cpp''
     = (Optimizer [] [''NDEBUG''], Inr ''int main(){return 0;}'')"
  by code_simp

text \<open>
  Claim C8.  While the delayed-parsed function templates are forced (lines 106--112) all
  diagnostics are suppressed: after every iteration of the loop the engine is the engine
  on entry with suppression on, so nothing that the template parser reports reaches the
  client.  After the loop suppression is off and the reported diagnostics are those on
  entry.  When suppression was off on entry, the diagnostics state after the collection
  phase, and after the whole of \<^verbatim>\<open>HandleTranslationUnit\<close>, is the state on entry.  It is
  off on entry in every run of the tool, which gives the file an engine of its own; and
  there, when the parse itself has reported no error, \<^verbatim>\<open>doOptimize\<close> returns the text
  and does not throw, whatever the forced parsing reports.
\<close>
theorem forced_parsing_diagnostics:
  assumes fin: "finite_info si"
    and si: "si = depsTraverse C (sourceManager c) Ctx (srcInfo c)"
  shows "(\<forall>k \<le> length (delayedParsedFunctions si).
            fst (fold (LateTemplateParser C) (take k (delayedParsedFunctions si))
                   (setSuppressAllDiagnostics True (diagnostics c), Ctx))
              = (diagnostics c)\<lparr>suppressAllDiagnostics := True\<rparr>)
       \<and> suppressAllDiagnostics (diagnostics (fst (collect_dependencies C (c, Ctx)))) = False
       \<and> reported (diagnostics (fst (collect_dependencies C (c, Ctx)))) = reported (diagnostics c)
       \<and> (\<not> suppressAllDiagnostics (diagnostics c) \<longrightarrow>
            diagnostics (fst (collect_dependencies C (c, Ctx))) = diagnostics c
            \<and> (\<exists>c' ast. HandleTranslationUnit C c Ctx = Some (c', ast) \<and> diagnostics c' = diagnostics c))
       \<and> (\<forall>F run this cppFile sm compiler consumer bs ms ds.
             runs_as F C run
             \<and> setupFor F (cmdLineOptions this) cppFile = Some (Some sm)
             \<and> CreateASTConsumer (create \<lparr>factoryResult = [], factoryMacrosToKeep = macrosToKeep this\<rparr>)
                   \<lparr>compilerSourceManager = Some sm, compilerDiagnostics = new_DiagnosticsEngine,
                    compilerPPCallbacks = []\<rparr> = (compiler, Inr consumer)
             \<and> parseFile F (cmdLineOptions this) cppFile = (Ctx, bs, ms, ds)
             \<and> c = after_parsing consumer bs ms ds
             \<and> \<not> list_ex (isError F) ds
             \<longrightarrow> \<not> suppressAllDiagnostics (diagnostics c)
                 \<and> (\<exists>text. doOptimize run this cppFile = (this, Inr text)))"
proof (intro conjI allI impI)
  fix k
  have "suppressAllDiagnostics ((diagnostics c)\<lparr>suppressAllDiagnostics := True\<rparr>)" by simp
  from LateTemplateParser_suppressed[OF this]
  show "fst (fold (LateTemplateParser C) (take k (delayedParsedFunctions si))
               (setSuppressAllDiagnostics True (diagnostics c), Ctx))
          = (diagnostics c)\<lparr>suppressAllDiagnostics := True\<rparr>"
    by (simp add: setSuppressAllDiagnostics_def)
next
  show "suppressAllDiagnostics (diagnostics (fst (collect_dependencies C (c, Ctx)))) = False"
    by (simp add: collect_dependencies_diagnostics)
next
  show "reported (diagnostics (fst (collect_dependencies C (c, Ctx)))) = reported (diagnostics c)"
    by (simp add: collect_dependencies_diagnostics)
next
  assume "\<not> suppressAllDiagnostics (diagnostics c)"
  then show "diagnostics (fst (collect_dependencies C (c, Ctx))) = diagnostics c"
    by (simp add: collect_dependencies_diagnostics)
next
  assume off: "\<not> suppressAllDiagnostics (diagnostics c)"
  from HandleTranslationUnit_diagnostics[of C c Ctx] fin si off
  show "\<exists>c' ast. HandleTranslationUnit C c Ctx = Some (c', ast) \<and> diagnostics c' = diagnostics c"
    by auto
next
  fix F :: "'a front_end" and run :: clang_tool and this :: optimizer and cppFile :: string
    and sm :: source_manager and compiler :: compiler_instance and consumer :: optimizer_consumer
    and bs :: "branch_record list" and ms :: "macro_record list" and ds :: "diagnostic list"
  assume a: "runs_as F C run
             \<and> setupFor F (cmdLineOptions this) cppFile = Some (Some sm)
             \<and> CreateASTConsumer (create \<lparr>factoryResult = [], factoryMacrosToKeep = macrosToKeep this\<rparr>)
                   \<lparr>compilerSourceManager = Some sm, compilerDiagnostics = new_DiagnosticsEngine,
                    compilerPPCallbacks = []\<rparr> = (compiler, Inr consumer)
             \<and> parseFile F (cmdLineOptions this) cppFile = (Ctx, bs, ms, ds)
             \<and> c = after_parsing consumer bs ms ds
             \<and> \<not> list_ex (isError F) ds"
  then have cons: "consumer = \<lparr>diagnostics = new_DiagnosticsEngine, sourceManager = sm,
                      smartRewriter = new_SmartRewriter,
                      ppCallbacks = new_RemoveInactivePreprocessorBlocks (macrosToKeep this),
                      result = [],
                      srcInfo = \<lparr>uses = Map.empty, declsToKeep = {}, delayedParsedFunctions = []\<rparr>,
                      stagesRun = []\<rparr>"
    by (simp add: CreateASTConsumer_value)
  from a have c: "c = after_parsing consumer bs ms ds" by simp
  have d: "diagnostics c = fold Report ds new_DiagnosticsEngine"
    by (simp add: c after_parsing_fields cons)
  then have off: "\<not> suppressAllDiagnostics (diagnostics c)"
    by (simp add: Report_flag new_DiagnosticsEngine_def)
  have rep: "reported (diagnostics c) = ds"
    by (simp add: d Report_unsuppressed new_DiagnosticsEngine_def)
  from HandleTranslationUnit_diagnostics[of C c Ctx] fin si off
  obtain c' ast where h: "HandleTranslationUnit C c Ctx = Some (c', ast)" "diagnostics c' = diagnostics c"
    by auto
  let ?factory = "\<lparr>factoryResult = [], factoryMacrosToKeep = macrosToKeep this\<rparr>"
  have "process_file F C (cmdLineOptions this) ?factory cppFile
          = Some (Returned (run_status (isError F) (diagnostics c')) (result c'), Some c')"
    using a h(1) by (intro process_file_value[where sm=sm and Ctx=Ctx and bs=bs and ms=ms and ds=ds and ast=ast])
      (simp_all add: c cons)
  moreover from a have "\<not> list_ex (isError F) ds" by simp
  then have "run_status (isError F) (diagnostics c') = 0"
    by (simp add: run_status_def h(2) rep)
  ultimately have "tool_run F C (cmdLineOptions this) [cppFile] ?factory = Some (Returned 0 (result c'), Some c')"
    by (simp add: tool_run_single)
  with a have "run (cmdLineOptions this) [cppFile] ?factory = Returned 0 (result c')"
    unfolding runs_as_def by blast
  then have "doOptimize run this cppFile = (this, Inr (result c'))"
    by (simp add: doOptimize_def)
  then show "\<not> suppressAllDiagnostics (diagnostics c)" and "\<exists>text. doOptimize run this cppFile = (this, Inr text)"
    using off by simp_all
qed

text \<open>
  The file parses with a warning.  Two templates are forced and each reports an error;
  after one and after two iterations the engine holds the warning alone, with suppression
  on, after the run it holds the warning alone with suppression off, and \<^verbatim>\<open>doOptimize\<close>
  returns the text.
\<close>
theorem forced_parsing_diagnostics_witness:
  "fst (fold (LateTemplateParser (example_passes {7})) (take 1 [3, 5])
          (setSuppressAllDiagnostics True
             (diagnostics (after_parsing example_consumer [] [] [''warning: unused variable''])), 0))
     = \<lparr>suppressAllDiagnostics = True, reported = [''warning: unused variable'']\<rparr>
   \<and> fst (fold (LateTemplateParser (example_passes {7})) (take 2 [3, 5])
          (setSuppressAllDiagnostics True
             (diagnostics (after_parsing example_consumer [] [] [''warning: unused variable''])), 0))
     = \<lparr>suppressAllDiagnostics = True, reported = [''warning: unused variable'']\<rparr>
   \<and> diagnostics (fst (collect_dependencies (example_passes {7})
          (after_parsing example_consumer [] [] [''warning: unused variable''], 0)))
     = \<lparr>suppressAllDiagnostics = False, reported = [''warning: unused variable'']\<rparr>
   \<and> (\<exists>c' ast. HandleTranslationUnit (example_passes {7})
                    (after_parsing example_consumer [] [] [''warning: unused variable'']) 0 = Some (c', ast)
          \<and> diagnostics c' = \<lparr>suppressAllDiagnostics = False, reported = [''warning: unused variable'']\<rparr>)
   \<and> lateTemplateParser (example_passes {7}) 3 0 = (1, [''error: expected expression''])
   \<and> isError example_front_end ''error: expected expression''
   \<and> (\<exists>text. doOptimize example_run (Optimizer [] [''NDEBUG'']) ''a.cpp''
                = (Optimizer [] [''NDEBUG''], Inr text))
   \<and> doOptimize example_run (Optimizer [] [''NDEBUG'']) ''a.cpp''
       = (Optimizer [] [''NDEBUG''], Inr ''int main(){return 0;}'')"
proof -
  let ?C = "example_passes {7}" and ?si = "example_info\<lparr>declsToKeep := {7}\<rparr>"
  let ?c = "after_parsing example_consumer [] [] [''warning: unused variable'']"
  let ?opt = "Optimizer [] [''NDEBUG'']"
  have fin: "finite_info ?si" by (simp add: finite_info_def example_info_def targets_of_def)
  have si: "?si = depsTraverse ?C (sourceManager ?c) 0 (srcInfo ?c)"
    by (simp add: example_passes_def)
  note T = forced_parsing_diagnostics[OF fin si]
  have d: "diagnostics ?c = \<lparr>suppressAllDiagnostics = False, reported = [''warning: unused variable'']\<rparr>"
    by (simp add: after_parsing_def example_consumer_def new_OptimizerConsumer_def example_compiler_def
        Report_def)
  have fs: "delayedParsedFunctions ?si = [3, 5]" by (simp add: example_info_def)
  from T have k: "\<forall>k \<le> length (delayedParsedFunctions ?si).
            fst (fold (LateTemplateParser ?C) (take k (delayedParsedFunctions ?si))
                   (setSuppressAllDiagnostics True (diagnostics ?c), 0))
              = (diagnostics ?c)\<lparr>suppressAllDiagnostics := True\<rparr>" by blast
  from k[rule_format, of 1] have k1: "fst (fold (LateTemplateParser ?C) (take 1 [3, 5])
          (setSuppressAllDiagnostics True (diagnostics ?c), 0))
     = \<lparr>suppressAllDiagnostics = True, reported = [''warning: unused variable'']\<rparr>"
    by (simp only: fs) (simp add: d)
  from k[rule_format, of 2] have k2: "fst (fold (LateTemplateParser ?C) (take 2 [3, 5])
          (setSuppressAllDiagnostics True (diagnostics ?c), 0))
     = \<lparr>suppressAllDiagnostics = True, reported = [''warning: unused variable'']\<rparr>"
    by (simp only: fs) (simp add: d)
  from T have "\<not> suppressAllDiagnostics (diagnostics ?c) \<longrightarrow>
            diagnostics (fst (collect_dependencies ?C (?c, 0))) = diagnostics ?c
            \<and> (\<exists>c' ast. HandleTranslationUnit ?C ?c 0 = Some (c', ast) \<and> diagnostics c' = diagnostics ?c)"
    by blast
  then have o: "diagnostics (fst (collect_dependencies ?C (?c, 0)))
                  = \<lparr>suppressAllDiagnostics = False, reported = [''warning: unused variable'']\<rparr>"
    "\<exists>c' ast. HandleTranslationUnit ?C ?c 0 = Some (c', ast)
        \<and> diagnostics c' = \<lparr>suppressAllDiagnostics = False, reported = [''warning: unused variable'']\<rparr>"
    by (simp_all add: d)
  have r: "runs_as example_front_end ?C example_run"
    by (simp add: runs_as_def example_run_def)
  have s: "setupFor example_front_end (cmdLineOptions ?opt) ''a.cpp''
             = Some (Some \<lparr>mainBuffer = Some example_text, mainInvalid = False\<rparr>)"
    by (simp add: example_front_end_def)
  have p: "parseFile example_front_end (cmdLineOptions ?opt) ''a.cpp''
             = (0, [], [], [''warning: unused variable''])"
    by (simp add: example_front_end_def)
  have n: "\<not> list_ex (isError example_front_end) [''warning: unused variable'']"
    by (simp add: example_front_end_def)
  from T have "\<forall>F run this cppFile sm compiler consumer bs ms ds.
             runs_as F ?C run
             \<and> setupFor F (cmdLineOptions this) cppFile = Some (Some sm)
             \<and> CreateASTConsumer (create \<lparr>factoryResult = [], factoryMacrosToKeep = macrosToKeep this\<rparr>)
                   \<lparr>compilerSourceManager = Some sm, compilerDiagnostics = new_DiagnosticsEngine,
                    compilerPPCallbacks = []\<rparr> = (compiler, Inr consumer)
             \<and> parseFile F (cmdLineOptions this) cppFile = (0, bs, ms, ds)
             \<and> ?c = after_parsing consumer bs ms ds
             \<and> \<not> list_ex (isError F) ds
             \<longrightarrow> \<not> suppressAllDiagnostics (diagnostics ?c)
                 \<and> (\<exists>text. doOptimize run this cppFile = (this, Inr text))"
    by blast
  from this[rule_format, of example_front_end example_run ?opt "''a.cpp''" _ _ example_consumer
      "[]" "[]" "[''warning: unused variable'']"] r s example_entry_consumer p n
  have e: "\<exists>text. doOptimize example_run ?opt ''a.cpp'' = (?opt, Inr text)"
    by blast
  have l: "lateTemplateParser ?C 3 0 = (1, [''error: expected expression''])"
    "isError example_front_end ''error: expected expression''"
    by (simp_all add: example_passes_def example_front_end_def)
  from k1 k2 o e l example_run_text show ?thesis by blast
qed

subsection \<open>Macros of the keep-list\<close>

lemma slice_nth:
  assumes "b \<le> length txt"
  shows "map ((!) txt) [a..<b] = take (b - a) (drop a txt)"
  using assms by (intro nth_equalityI) (auto simp: min_def)

lemma upt_split: "i \<le> j \<Longrightarrow> j \<le> k \<Longrightarrow> [i..<k] = [i..<j] @ [j..<k]"
  using upt_add_eq_append[of i j "k - j"] by simp

lemma untouched_not_deleted:
  assumes "untouched e (a, b)" and "a \<le> i" and "i < b"
  shows "\<not> deletes e i"
  using assms by (cases e) (auto simp: overlaps_def)

lemma untouched_not_inserted:
  assumes "untouched e (a, b)" and "a < i" and "i < b"
  shows "inserts e i = []"
  using assms by (cases e) auto

text \<open>The applier leaves a range as it is when no edit touches it.\<close>
lemma apply_edits_keeps:
  assumes ab: "a \<le> b" and bn: "b \<le> length txt"
    and un: "list_all (\<lambda>e. untouched e (a, b)) es"
  shows "\<exists>pre post. apply_edits es txt = pre @ take (b - a) (drop a txt) @ post"
proof (cases "a = b")
  case True
  then have "apply_edits es txt = apply_edits es txt @ take (b - a) (drop a txt) @ []" by simp
  then show ?thesis by blast
next
  case False
  with ab have lt: "a < b" by simp
  let ?g = "\<lambda>i. concat (map (\<lambda>e. inserts e i) es)
                  @ (if list_ex (\<lambda>e. deletes e i) es then [] else [txt ! i])"
  have nd: "\<not> list_ex (\<lambda>e. deletes e i) es" if "a \<le> i" "i < b" for i
    using un that untouched_not_deleted by (auto simp: list_all_iff list_ex_iff)
  have ni: "concat (map (\<lambda>e. inserts e i) es) = []" if "a < i" "i < b" for i
    using un that untouched_not_inserted by (auto simp: list_all_iff)
  have first: "?g a = concat (map (\<lambda>e. inserts e a) es) @ [txt ! a]"
    using nd[of a] lt by simp
  have rest: "map ?g [Suc a..<b] = map (\<lambda>i. [txt ! i]) [Suc a..<b]"
    using nd ni by (intro map_cong) auto
  have rest': "concat (map ?g [Suc a..<b]) = map ((!) txt) [Suc a..<b]"
    by (simp only: rest concat_map_singleton)
  have split: "[a..<b] = a # [Suc a..<b]" using lt by (simp add: upt_conv_Cons)
  have "concat (map ?g [a..<b]) = ?g a @ concat (map ?g [Suc a..<b])"
    by (subst split) simp
  also have "\<dots> = concat (map (\<lambda>e. inserts e a) es) @ map ((!) txt) (a # [Suc a..<b])"
    by (simp only: first rest') simp
  also have "\<dots> = concat (map (\<lambda>e. inserts e a) es) @ take (b - a) (drop a txt)"
    using bn by (simp only: split[symmetric] slice_nth)
  finally have mid: "concat (map ?g [a..<b])
               = concat (map (\<lambda>e. inserts e a) es) @ take (b - a) (drop a txt)" .
  have "[0..<length txt] = [0..<a] @ [a..<length txt]"
    using ab bn by (intro upt_split) simp_all
  also have "[a..<length txt] = [a..<b] @ [b..<length txt]"
    using ab bn by (intro upt_split) simp_all
  finally have "concat (map ?g [0..<length txt])
                  = concat (map ?g [0..<a]) @ concat (map ?g [a..<b]) @ concat (map ?g [b..<length txt])"
    by (simp only: map_append concat_append)
  then have "apply_edits es txt
               = (concat (map ?g [0..<a]) @ concat (map (\<lambda>e. inserts e a) es))
                 @ take (b - a) (drop a txt)
                 @ (concat (map ?g [b..<length txt]) @ concat (map (\<lambda>e. inserts e (length txt)) es))"
    unfolding apply_edits_def by (simp only: mid append_assoc)
  then show ?thesis by blast
qed

lemma Finalize_untouched:
  assumes br: "list_all (\<lambda>b. branchTaken b \<or> \<not> overlaps (branchRange b) r) (branches pp)"
    and ms: "list_all (\<lambda>m'. macroName m' \<in> keepList pp \<or> \<not> overlaps (definitionRange m') r) (macros pp)"
  shows "list_all (\<lambda>e. untouched e r) (Finalize pp rw)"
  using assms
  by (auto simp: Finalize_def dead_macros_def delete_range_def list_all_iff)

lemma kept_not_dead: "macroName m \<in> keepList pp \<Longrightarrow> m \<notin> set (dead_macros pp rw)"
  by (simp add: dead_macros_def)

text \<open>
  Claim C6, as the code has it.  The keep-list handed to the \<^verbatim>\<open>Optimizer\<close> constructor
  reaches the tracker that \<^verbatim>\<open>CreateASTConsumer\<close> constructs (lines 199--206, 225--229),
  and \<^verbatim>\<open>Finalize\<close> never deletes the definition of a macro named in it as a dead macro,
  with any number of expansion sites in surviving code, none included.  The bytes of the
  definition are in the returned text when no other edit touches them: no edit of the
  pruner or the namespace merger, no branch that was never taken and no definition of a
  macro outside the keep-list overlaps the definition.
\<close>
theorem keep_list_macros_survive:
  assumes made: "CreateASTConsumer
                   (create \<lparr>factoryResult = res, factoryMacrosToKeep = macrosToKeep (Optimizer opts keep)\<rparr>)
                   compiler = (compiler', Inr consumer)"
    and c: "c = after_parsing consumer bs ms ds"
    and m: "m \<in> set ms" "macroName m \<in> set keep"
    and buf: "mainBuffer (sourceManager c) = Some txt" "\<not> mainInvalid (sourceManager c)"
    and r: "fst (definitionRange m) \<le> snd (definitionRange m)" "snd (definitionRange m) \<le> length txt"
    and fin: "finite_info si"
    and si: "si = depsTraverse C (sourceManager c) Ctx (srcInfo c)"
    and ast: "ast = snd (fold (LateTemplateParser C) (delayedParsedFunctions si)
                          (setSuppressAllDiagnostics True (diagnostics c), Ctx))"
    and used: "used = {d. \<exists>e \<in> declsToKeep si. (getCanonicalDecl C e, d) \<in> (edges (uses si))\<^sup>*}"
    and trav: "optimizerTraverse C (sourceManager c) ast used (smartRewriter c) = (removed1, es1)"
    and fini: "optimizerFinalize C (sourceManager c) ast used removed1 (schedule es1 (smartRewriter c))
                 = (removedDecls, es2)"
    and merg: "es3 = mergeNamespacesTraverse C (sourceManager c) ast removedDecls
                       (schedule (es1 @ es2) (smartRewriter c))"
    and fina: "es4 = Finalize (ppCallbacks c) (schedule (es1 @ es2 @ es3) (smartRewriter c))"
    and others: "list_all (\<lambda>e. untouched e (definitionRange m)) (es1 @ es2 @ es3)"
    and inactive: "list_all (\<lambda>b. branchTaken b \<or> \<not> overlaps (branchRange b) (definitionRange m)) bs"
    and dead: "list_all (\<lambda>m'. macroName m' \<in> set keep
                               \<or> \<not> overlaps (definitionRange m') (definitionRange m)) ms"
  shows "keepList (ppCallbacks c) = set keep
       \<and> m \<in> set (macros (ppCallbacks c))
       \<and> m \<notin> set (dead_macros (ppCallbacks c) (schedule (es1 @ es2 @ es3) (smartRewriter c)))
       \<and> list_all (\<lambda>e. untouched e (definitionRange m)) es4
       \<and> (\<exists>c' pre post.
             HandleTranslationUnit C c Ctx = Some (c', ast)
             \<and> edits (smartRewriter c') = es1 @ es2 @ es3 @ es4
             \<and> result c' = apply_edits (es1 @ es2 @ es3 @ es4) txt
             \<and> result c' = pre @ take (snd (definitionRange m) - fst (definitionRange m))
                                    (drop (fst (definitionRange m)) txt) @ post)"
proof -
  let ?pp = "ppCallbacks c" and ?r = "definitionRange m"
  from made have k0: "keepList (ppCallbacks consumer) = set keep"
    by (simp add: CreateASTConsumer_keepList create_def Optimizer_def)
  from made have rw0: "smartRewriter consumer = new_SmartRewriter"
    by (auto simp: CreateASTConsumer_def Let_def new_OptimizerConsumer_def split: option.splits)
  have k: "keepList ?pp = set keep" and ms: "macros ?pp = ms" and bs: "branches ?pp = bs"
    and rw: "smartRewriter c = new_SmartRewriter"
    by (simp_all add: c after_parsing_fields k0 rw0)
  from m have 1: "m \<in> set (macros ?pp)" by (simp add: ms)
  from m have 2: "m \<notin> set (dead_macros ?pp (schedule (es1 @ es2 @ es3) (smartRewriter c)))"
    by (intro kept_not_dead) (simp add: k)
  have 3: "list_all (\<lambda>e. untouched e ?r) es4"
    unfolding fina using inactive dead by (intro Finalize_untouched) (simp_all add: k ms bs)
  with others have all: "list_all (\<lambda>e. untouched e (fst ?r, snd ?r)) (es1 @ es2 @ es3 @ es4)"
    by simp
  from apply_edits_keeps[OF r all] obtain pre post where
    keeps: "apply_edits (es1 @ es2 @ es3 @ es4) txt = pre @ take (snd ?r - fst ?r) (drop (fst ?r) txt) @ post"
    by blast
  from HandleTranslationUnit_flow[OF fin si ast used trav fini merg fina] obtain c' where
    h: "HandleTranslationUnit C c Ctx = Some (c', ast)"
    and s: "smartRewriter c'
              = applyChanges (sourceManager c) (schedule (es1 @ es2 @ es3 @ es4) (smartRewriter c))"
    and t: "result c' = getResult (c\<lparr>smartRewriter :=
              applyChanges (sourceManager c) (schedule (es1 @ es2 @ es3 @ es4) (smartRewriter c))\<rparr>)"
    by blast
  from t have t': "result c' = apply_edits (es1 @ es2 @ es3 @ es4) txt"
    by (simp only: getResult_applied[OF rw buf])
  from s have e: "edits (smartRewriter c') = es1 @ es2 @ es3 @ es4"
    by (simp add: applyChanges_edits schedule_def rw new_SmartRewriter_def)
  from k 1 2 3 h e t' keeps show ?thesis by (simp only:) blast
qed

text \<open>
  \<^verbatim>\<open>KEEP\<close> is expanded nowhere and stays; \<^verbatim>\<open>TMP\<close>, outside the keep-list, is deleted
  with the function that held its only expansion.
\<close>
theorem keep_list_macros_survive_witness:
  "macrosToKeep (Optimizer [] [''KEEP'']) = {''KEEP''}
   \<and> expansionSites (hd toggle_macros) = []
   \<and> take (14 - 0) (drop 0 toggle_text) = ''#define KEEP 1''
   \<and> hd toggle_macros \<notin> set (dead_macros (ppCallbacks toggle_consumer)
                                 (schedule [DeleteRange 29 54] (smartRewriter toggle_consumer)))
   \<and> Finalize (ppCallbacks toggle_consumer) (schedule [DeleteRange 29 54] (smartRewriter toggle_consumer))
       = [DeleteRange 15 28]
   \<and> map_option (edits \<circ> smartRewriter \<circ> fst) (HandleTranslationUnit toggle_passes toggle_consumer 0)
       = Some [DeleteRange 29 54, DeleteRange 15 28]
   \<and> map_option (result \<circ> fst) (HandleTranslationUnit toggle_passes toggle_consumer 0)
       = Some (''#define KEEP 1'' @ [CHR 0x0A, CHR 0x0A] @ '' int main(){return 0;}'')"
proof -
  let ?m = "hd toggle_macros"
  have c: "toggle_consumer
             = after_parsing
                 (new_OptimizerConsumer toggle_compiler \<lparr>mainBuffer = Some toggle_text, mainInvalid = False\<rparr>
                    new_SmartRewriter
                    (new_RemoveInactivePreprocessorBlocks (macrosToKeep (Optimizer [] [''KEEP''])))
                    [])
                 [] toggle_macros []"
    by (simp add: toggle_consumer_def)
  have m: "?m \<in> set toggle_macros" "macroName ?m \<in> set [''KEEP'']"
    by (simp_all add: toggle_macros_def)
  have buf: "mainBuffer (sourceManager toggle_consumer) = Some toggle_text"
    "\<not> mainInvalid (sourceManager toggle_consumer)"
    by (simp_all add: toggle_consumer_fields)
  have r: "fst (definitionRange ?m) \<le> snd (definitionRange ?m)"
    "snd (definitionRange ?m) \<le> length toggle_text"
    by (simp_all add: toggle_macros_def toggle_text_def)
  have others: "list_all (\<lambda>e. untouched e (definitionRange ?m)) ([DeleteRange 29 54] @ [] @ [])"
    by (simp add: toggle_macros_def overlaps_def)
  have inactive: "list_all (\<lambda>b. branchTaken b \<or> \<not> overlaps (branchRange b) (definitionRange ?m)) []"
    by simp
  have dead: "list_all (\<lambda>m'. macroName m' \<in> set [''KEEP'']
                               \<or> \<not> overlaps (definitionRange m') (definitionRange ?m)) toggle_macros"
    by (simp add: toggle_macros_def overlaps_def)
  note T = keep_list_macros_survive[OF toggle_made c m buf r toggle_info toggle_ast toggle_used
      toggle_prune toggle_finalize others inactive dead]
  have k: "macrosToKeep (Optimizer [] [''KEEP'']) = {''KEEP''}" by (simp add: Optimizer_def)
  have s: "expansionSites ?m = []" "take (14 - 0) (drop 0 toggle_text) = ''#define KEEP 1''"
    by (simp_all add: toggle_macros_def toggle_text_def)
  from T have 1: "?m \<notin> set (dead_macros (ppCallbacks toggle_consumer)
                                 (schedule [DeleteRange 29 54] (smartRewriter toggle_consumer)))"
    by simp
  have 2: "Finalize (ppCallbacks toggle_consumer) (schedule [DeleteRange 29 54] (smartRewriter toggle_consumer))
       = [DeleteRange 15 28]"
    using toggle_finalize by simp
  from T obtain c' where h: "HandleTranslationUnit toggle_passes toggle_consumer 0 = Some (c', 2)"
    and e: "edits (smartRewriter c') = [DeleteRange 29 54] @ [] @ [] @ [DeleteRange 15 28]"
    and t: "result c' = apply_edits ([DeleteRange 29 54] @ [] @ [] @ [DeleteRange 15 28]) toggle_text"
    by blast
  from h e have 3: "map_option (edits \<circ> smartRewriter \<circ> fst)
                      (HandleTranslationUnit toggle_passes toggle_consumer 0)
                    = Some [DeleteRange 29 54, DeleteRange 15 28]"
    by simp
  from h t have 4: "map_option (result \<circ> fst) (HandleTranslationUnit toggle_passes toggle_consumer 0)
       = Some (''#define KEEP 1'' @ [CHR 0x0A, CHR 0x0A] @ '' int main(){return 0;}'')"
    by (simp only: toggle_output) simp
  from k s 1 2 3 4 show ?thesis by (simp only:) simp
qed

lemma kept_macro_made:
  "CreateASTConsumer
     (create \<lparr>factoryResult = [], factoryMacrosToKeep = macrosToKeep (Optimizer [] [''KEEP''])\<rparr>)
     kept_macro_compiler
   = (addPPCallbacks (new_RemoveInactivePreprocessorBlocks {''KEEP''}) kept_macro_compiler,
      Inr (new_OptimizerConsumer kept_macro_compiler \<lparr>mainBuffer = Some kept_macro_text, mainInvalid = False\<rparr>
             new_SmartRewriter (new_RemoveInactivePreprocessorBlocks (macrosToKeep (Optimizer [] [''KEEP''])))
             []))"
  by (simp add: CreateASTConsumer_def create_def kept_macro_compiler_def Let_def Optimizer_def)

lemma kept_macro_run:
  "map_option (edits \<circ> smartRewriter \<circ> fst) (HandleTranslationUnit kept_macro_passes kept_macro_consumer 0)
     = Some [DeleteRange 0 32]"
  "map_option (result \<circ> fst) (HandleTranslationUnit kept_macro_passes kept_macro_consumer 0)
     = Some ''int main(){return 0;}''"
  by code_simp+

lemma no_define_left: "\<not> (\<exists>pre post. ''int main(){return 0;}'' = pre @ ''#define KEEP 1'' @ post)"
proof
  assume "\<exists>pre post. ''int main(){return 0;}'' = pre @ ''#define KEEP 1'' @ post"
  then obtain pre post where "''int main(){return 0;}'' = pre @ ''#define KEEP 1'' @ post" by blast
  then have "set (pre @ ''#define KEEP 1'' @ post) = set ''int main(){return 0;}''" by simp
  moreover have "CHR ''#'' \<in> set (pre @ ''#define KEEP 1'' @ post)" by simp
  ultimately have "CHR ''#'' \<in> set ''int main(){return 0;}''" by (simp only:)
  then show False by simp
qed

text \<open>
  Claim C6 as stated fails when the macro is defined inside a declaration that the pruner
  removes: the definition is deleted with the declaration, keep-list or not.
\<close>
theorem keep_list_macros_survive_counterexample:
  "macroName kept_macro \<in> macrosToKeep (Optimizer [] [''KEEP''])
   \<and> (\<exists>compiler consumer.
         CreateASTConsumer
           (create \<lparr>factoryResult = [], factoryMacrosToKeep = macrosToKeep (Optimizer [] [''KEEP''])\<rparr>)
           kept_macro_compiler = (compiler, Inr consumer)
         \<and> kept_macro_consumer = after_parsing consumer [] [kept_macro] [])
   \<and> keepList (ppCallbacks kept_macro_consumer) = {''KEEP''}
   \<and> macros (ppCallbacks kept_macro_consumer) = [kept_macro]
   \<and> definitionRange kept_macro = (15, 29)
   \<and> take (29 - 15) (drop 15 kept_macro_text) = ''#define KEEP 1''
   \<and> Finalize (ppCallbacks kept_macro_consumer)
        (schedule [DeleteRange 0 32] (smartRewriter kept_macro_consumer)) = []
   \<and> map_option (edits \<circ> smartRewriter \<circ> fst)
        (HandleTranslationUnit kept_macro_passes kept_macro_consumer 0) = Some [DeleteRange 0 32]
   \<and> list_all (deletes (DeleteRange 0 32)) [15..<29]
   \<and> map_option (result \<circ> fst) (HandleTranslationUnit kept_macro_passes kept_macro_consumer 0)
       = Some ''int main(){return 0;}''
   \<and> \<not> (\<exists>pre post. ''int main(){return 0;}'' = pre @ ''#define KEEP 1'' @ post)"
proof -
  have 1: "macroName kept_macro \<in> macrosToKeep (Optimizer [] [''KEEP''])"
    by (simp add: kept_macro_def Optimizer_def)
  have 2: "\<exists>compiler consumer.
         CreateASTConsumer
           (create \<lparr>factoryResult = [], factoryMacrosToKeep = macrosToKeep (Optimizer [] [''KEEP''])\<rparr>)
           kept_macro_compiler = (compiler, Inr consumer)
         \<and> kept_macro_consumer = after_parsing consumer [] [kept_macro] []"
    by (simp add: kept_macro_made kept_macro_consumer_def)
  have 3: "keepList (ppCallbacks kept_macro_consumer) = {''KEEP''}"
    "macros (ppCallbacks kept_macro_consumer) = [kept_macro]"
    "definitionRange kept_macro = (15, 29)"
    "take (29 - 15) (drop 15 kept_macro_text) = ''#define KEEP 1''"
    by (simp_all add: kept_macro_consumer_def after_parsing_def new_OptimizerConsumer_def
        new_RemoveInactivePreprocessorBlocks_def Optimizer_def kept_macro_def kept_macro_text_def)
  have 4: "Finalize (ppCallbacks kept_macro_consumer)
        (schedule [DeleteRange 0 32] (smartRewriter kept_macro_consumer)) = []"
    by (simp add: Finalize_def dead_macros_def kept_macro_consumer_def after_parsing_def
        new_OptimizerConsumer_def new_RemoveInactivePreprocessorBlocks_def Optimizer_def kept_macro_def)
  have 5: "list_all (deletes (DeleteRange 0 32)) [15..<29]"
    by (simp add: list_all_iff)
  from 1 2 3 4 5 kept_macro_run no_define_left show ?thesis by (simp only:) simp
qed

subsection \<open>\<^verbatim>\<open>doOptimize\<close>\<close>

text \<open>
  Claim C5.  When the tool run returns a nonzero status, \<^verbatim>\<open>doOptimize\<close> throws
  \<^verbatim>\<open>std::runtime_error("Compilation error")\<close> and returns no text, whatever the run has
  left in \<^verbatim>\<open>result\<close>.
\<close>
theorem doOptimize_compilation_error:
  assumes "run (cmdLineOptions this) [cppFile]
             \<lparr>factoryResult = [], factoryMacrosToKeep = macrosToKeep this\<rparr> = Returned ret text"
    and "ret \<noteq> 0"
  shows "doOptimize run this cppFile = (this, Inl (RuntimeError ''Compilation error''))"
  using assms by (simp add: doOptimize_def)

text \<open>The failing run had already written text; none of it is returned.\<close>
theorem doOptimize_compilation_error_witness:
  "example_tool [] [''broken.cpp''] \<lparr>factoryResult = [], factoryMacrosToKeep = {}\<rparr>
     = Returned 1 ''int main(){''
   \<and> doOptimize example_tool (Optimizer [] []) ''broken.cpp''
     = (Optimizer [] [], Inl (RuntimeError ''Compilation error''))"
  using doOptimize_compilation_error[of example_tool "Optimizer [] []" "''broken.cpp''" 1 "''int main(){''"]
  by (simp add: example_tool_def Optimizer_def)

lemma after_runs_same: "after_runs run this files = this"
  by (induction files) (simp_all add: after_runs_def doOptimize_def Let_def split: run_outcome.splits)

text \<open>An invocation overwrites the objects it finds before it reads them.\<close>
lemma doOptimize_in_process_value:
  "doOptimize_in_process F C (this, mem) cppFile
     = (case tool_run F C (cmdLineOptions this) [cppFile]
               \<lparr>factoryResult = [], factoryMacrosToKeep = macrosToKeep this\<rparr> of
          None \<Rightarrow> None
        | Some (outcome, consumer) \<Rightarrow>
            Some ((this,
                   \<lparr>sourcesObj = [cppFile],
                    resultObj = (case outcome of Threw e \<Rightarrow> [] | Returned ret result1 \<Rightarrow> result1),
                    factoryObj = \<lparr>factoryResult = [], factoryMacrosToKeep = macrosToKeep this\<rparr>,
                    consumerObj = (case consumer of None \<Rightarrow> consumerObj mem | Some c \<Rightarrow> Some c)\<rparr>),
                  (case outcome of
                     Threw e \<Rightarrow> Inl e
                   | Returned ret result1 \<Rightarrow>
                       if ret \<noteq> 0 then Inl (RuntimeError ''Compilation error'') else Inr result1)))"
  by (simp add: doOptimize_in_process_def Let_def split: option.splits run_outcome.splits)

lemma doOptimize_in_process_outcome:
  "map_option snd (doOptimize_in_process F C (this, mem) cppFile)
     = map_option (\<lambda>(outcome, consumer).
           case outcome of
             Threw e \<Rightarrow> Inl e
           | Returned ret result1 \<Rightarrow>
               if ret \<noteq> 0 then Inl (RuntimeError ''Compilation error'') else Inr result1)
         (tool_run F C (cmdLineOptions this) [cppFile]
            \<lparr>factoryResult = [], factoryMacrosToKeep = macrosToKeep this\<rparr>)"
  by (simp add: doOptimize_in_process_value split: option.splits)

lemma doOptimize_in_process_this:
  "doOptimize_in_process F C (this, mem) cppFile = Some (p, out) \<Longrightarrow> fst p = this"
  by (auto simp: doOptimize_in_process_value split: option.splits)

lemma after_batch_this:
  "after_batch F C (this, mem) files = Some p \<Longrightarrow> fst p = this"
proof (induction files arbitrary: mem)
  case Nil
  then show ?case by auto
next
  case (Cons f fs)
  then obtain p1 out where 1: "doOptimize_in_process F C (this, mem) f = Some (p1, out)"
    and 2: "after_batch F C p1 fs = Some p"
    by (auto split: option.splits)
  from doOptimize_in_process_this[OF 1] have "p1 = (this, snd p1)" by (cases p1) simp
  with 2 Cons.IH[of "snd p1"] show ?case by simp
qed

text \<open>
  Claim C9.  An invocation of \<^verbatim>\<open>doOptimize\<close> constructs its source list, result buffer
  and factory anew, and the consumer that \<^verbatim>\<open>CreateASTConsumer\<close> makes for it has a new
  rewriter without edits, an empty \<^verbatim>\<open>srcInfo\<close>, a tracker that has recorded nothing and
  an empty result.  What the invocation returns or throws is therefore the same in every
  memory that earlier invocations can have left, the \<^verbatim>\<open>Optimizer\<close> object is unchanged,
  and after any two batches of earlier files the invocation on a file has the same
  outcome.  The outcome is that of \<^verbatim>\<open>doOptimize\<close> above for a tool that runs as the
  tooling does.
\<close>
theorem doOptimize_stateless:
  "map_option snd (doOptimize_in_process F C (this, mem) cppFile)
     = map_option snd (doOptimize_in_process F C (this, mem') cppFile)
   \<and> (\<forall>p out. doOptimize_in_process F C (this, mem) cppFile = Some (p, out) \<longrightarrow>
          fst p = this
          \<and> sourcesObj (snd p) = [cppFile]
          \<and> factoryObj (snd p) = \<lparr>factoryResult = [], factoryMacrosToKeep = macrosToKeep this\<rparr>
          \<and> (\<forall>run. runs_as F C run \<longrightarrow> doOptimize run this cppFile = (this, out)))
   \<and> (\<forall>sm de cbs. \<exists>compiler consumer.
          CreateASTConsumer (create \<lparr>factoryResult = [], factoryMacrosToKeep = macrosToKeep this\<rparr>)
            \<lparr>compilerSourceManager = Some sm, compilerDiagnostics = de, compilerPPCallbacks = cbs\<rparr>
            = (compiler, Inr consumer)
          \<and> smartRewriter consumer = \<lparr>edits = [], rewriteBuffer = None\<rparr>
          \<and> srcInfo consumer = \<lparr>uses = Map.empty, declsToKeep = {}, delayedParsedFunctions = []\<rparr>
          \<and> ppCallbacks consumer = \<lparr>keepList = macrosToKeep this, branches = [], macros = []\<rparr>
          \<and> result consumer = [])
   \<and> (\<forall>files files' p p'.
          after_batch F C (this, mem) files = Some p \<and> after_batch F C (this, mem') files' = Some p'
          \<longrightarrow> fst p = this \<and> fst p' = this
              \<and> map_option snd (doOptimize_in_process F C p cppFile)
                  = map_option snd (doOptimize_in_process F C p' cppFile))"
proof (intro conjI allI impI)
  show "map_option snd (doOptimize_in_process F C (this, mem) cppFile)
          = map_option snd (doOptimize_in_process F C (this, mem') cppFile)"
    by (simp only: doOptimize_in_process_outcome)
next
  fix p out
  assume a: "doOptimize_in_process F C (this, mem) cppFile = Some (p, out)"
  then show "fst p = this" by (rule doOptimize_in_process_this)
  from a show "sourcesObj (snd p) = [cppFile]"
    by (auto simp: doOptimize_in_process_value split: option.splits)
  from a show "factoryObj (snd p) = \<lparr>factoryResult = [], factoryMacrosToKeep = macrosToKeep this\<rparr>"
    by (auto simp: doOptimize_in_process_value split: option.splits)
  fix run
  assume r: "runs_as F C run"
  from a obtain outcome consumer where
    t: "tool_run F C (cmdLineOptions this) [cppFile]
          \<lparr>factoryResult = [], factoryMacrosToKeep = macrosToKeep this\<rparr> = Some (outcome, consumer)"
    and o: "out = (case outcome of
                     Threw e \<Rightarrow> Inl e
                   | Returned ret result1 \<Rightarrow>
                       if ret \<noteq> 0 then Inl (RuntimeError ''Compilation error'') else Inr result1)"
    by (auto simp: doOptimize_in_process_value split: option.splits)
  from r t have "run (cmdLineOptions this) [cppFile]
                   \<lparr>factoryResult = [], factoryMacrosToKeep = macrosToKeep this\<rparr> = outcome"
    unfolding runs_as_def by blast
  then show "doOptimize run this cppFile = (this, out)"
    by (simp add: doOptimize_def o split: run_outcome.splits)
next
  fix sm de cbs
  show "\<exists>compiler consumer.
          CreateASTConsumer (create \<lparr>factoryResult = [], factoryMacrosToKeep = macrosToKeep this\<rparr>)
            \<lparr>compilerSourceManager = Some sm, compilerDiagnostics = de, compilerPPCallbacks = cbs\<rparr>
            = (compiler, Inr consumer)
          \<and> smartRewriter consumer = \<lparr>edits = [], rewriteBuffer = None\<rparr>
          \<and> srcInfo consumer = \<lparr>uses = Map.empty, declsToKeep = {}, delayedParsedFunctions = []\<rparr>
          \<and> ppCallbacks consumer = \<lparr>keepList = macrosToKeep this, branches = [], macros = []\<rparr>
          \<and> result consumer = []"
    by (simp add: CreateASTConsumer_value new_SmartRewriter_def new_RemoveInactivePreprocessorBlocks_def)
next
  fix files files' p p'
  assume a: "after_batch F C (this, mem) files = Some p \<and> after_batch F C (this, mem') files' = Some p'"
  then have 1: "fst p = this" and 2: "fst p' = this"
    by (auto dest: after_batch_this)
  then show "fst p = this" and "fst p' = this" by simp_all
  from 1 have "p = (this, snd p)" by (cases p) simp
  moreover from 2 have "p' = (this, snd p')" by (cases p') simp
  ultimately
  have "map_option snd (doOptimize_in_process F C p cppFile)
          = map_option snd (doOptimize_in_process F C (this, snd p) cppFile)"
    "map_option snd (doOptimize_in_process F C p' cppFile)
          = map_option snd (doOptimize_in_process F C (this, snd p') cppFile)"
    by simp_all
  then show "map_option snd (doOptimize_in_process F C p cppFile)
          = map_option snd (doOptimize_in_process F C p' cppFile)"
    by (simp only: doOptimize_in_process_outcome)
qed

lemma example_fresh_run:
  "map_option snd (doOptimize_in_process example_front_end (example_passes {7})
                     (Optimizer [] [''NDEBUG''], empty_objects) ''a.cpp'')
     = Some (Inr ''int main(){return 0;}'')"
  by code_simp

lemma example_batch_returns:
  "map_option fst (after_batch example_front_end (example_passes {7})
                     (Optimizer [] [''NDEBUG''], example_leftover) [''other.cpp'', ''broken.cpp''])
     = Some (Optimizer [] [''NDEBUG''])"
  by code_simp

lemma example_leftover_objects:
  "sourcesObj example_leftover = [''other.cpp'']"
  "map_option (edits \<circ> smartRewriter) (consumerObj example_leftover) = Some [DeleteRange 3 9]"
  by (simp_all add: example_leftover_def)

text \<open>
  The memory left by a run on another file holds a source list, a result, and a consumer
  with an edit and a buffer.  The invocation on \<^verbatim>\<open>a.cpp\<close> returns the same text there,
  in an empty memory, and after a batch of two other files, one of which fails.
\<close>
theorem doOptimize_stateless_witness:
  "sourcesObj example_leftover = [''other.cpp'']
   \<and> map_option (edits \<circ> smartRewriter) (consumerObj example_leftover) = Some [DeleteRange 3 9]
   \<and> map_option snd (doOptimize_in_process example_front_end (example_passes {7})
                        (Optimizer [] [''NDEBUG''], example_leftover) ''a.cpp'')
       = Some (Inr ''int main(){return 0;}'')
   \<and> (\<exists>p. doOptimize_in_process example_front_end (example_passes {7})
              (Optimizer [] [''NDEBUG''], example_leftover) ''a.cpp''
                = Some (p, Inr ''int main(){return 0;}'')
            \<and> fst p = Optimizer [] [''NDEBUG'']
            \<and> sourcesObj (snd p) = [''a.cpp'']
            \<and> factoryObj (snd p) = \<lparr>factoryResult = [], factoryMacrosToKeep = {''NDEBUG''}\<rparr>)
   \<and> doOptimize example_run (Optimizer [] [''NDEBUG'']) ''a.cpp''
       = (Optimizer [] [''NDEBUG''], Inr ''int main(){return 0;}'')
   \<and> (\<exists>p. after_batch example_front_end (example_passes {7})
              (Optimizer [] [''NDEBUG''], example_leftover) [''other.cpp'', ''broken.cpp''] = Some p
            \<and> map_option snd (doOptimize_in_process example_front_end (example_passes {7}) p ''a.cpp'')
                = Some (Inr ''int main(){return 0;}''))"
proof -
  let ?F = example_front_end and ?C = "example_passes {7}" and ?opt = "Optimizer [] [''NDEBUG'']"
  note T = doOptimize_stateless[of ?F ?C ?opt example_leftover "''a.cpp''" empty_objects]
  from T example_fresh_run
  have 1: "map_option snd (doOptimize_in_process ?F ?C (?opt, example_leftover) ''a.cpp'')
             = Some (Inr ''int main(){return 0;}'')"
    by simp
  then obtain p where p: "doOptimize_in_process ?F ?C (?opt, example_leftover) ''a.cpp''
                            = Some (p, Inr ''int main(){return 0;}'')"
    by auto
  from T have "\<forall>p out. doOptimize_in_process ?F ?C (?opt, example_leftover) ''a.cpp'' = Some (p, out) \<longrightarrow>
          fst p = ?opt
          \<and> sourcesObj (snd p) = [''a.cpp'']
          \<and> factoryObj (snd p) = \<lparr>factoryResult = [], factoryMacrosToKeep = macrosToKeep ?opt\<rparr>
          \<and> (\<forall>run. runs_as ?F ?C run \<longrightarrow> doOptimize run ?opt ''a.cpp'' = (?opt, out))"
    by blast
  from this[rule_format, OF p]
  have 2: "fst p = ?opt" "sourcesObj (snd p) = [''a.cpp'']"
    "factoryObj (snd p) = \<lparr>factoryResult = [], factoryMacrosToKeep = {''NDEBUG''}\<rparr>"
    and 3: "\<forall>run. runs_as ?F ?C run \<longrightarrow> doOptimize run ?opt ''a.cpp'' = (?opt, Inr ''int main(){return 0;}'')"
    by (simp_all add: Optimizer_def)
  have "runs_as ?F ?C example_run" by (simp add: runs_as_def example_run_def)
  with 3 have 4: "doOptimize example_run ?opt ''a.cpp'' = (?opt, Inr ''int main(){return 0;}'')"
    by blast
  from example_batch_returns obtain q where
    q: "after_batch ?F ?C (?opt, example_leftover) [''other.cpp'', ''broken.cpp''] = Some q"
    by auto
  have e: "after_batch ?F ?C (?opt, empty_objects) [] = Some (?opt, empty_objects)" by simp
  from T have "\<forall>files files' p p'.
          after_batch ?F ?C (?opt, example_leftover) files = Some p
          \<and> after_batch ?F ?C (?opt, empty_objects) files' = Some p'
          \<longrightarrow> fst p = ?opt \<and> fst p' = ?opt
              \<and> map_option snd (doOptimize_in_process ?F ?C p ''a.cpp'')
                  = map_option snd (doOptimize_in_process ?F ?C p' ''a.cpp'')"
    by blast
  from this[rule_format, of "[''other.cpp'', ''broken.cpp'']" q "[]" "(?opt, empty_objects)"] q e
  have 5: "map_option snd (doOptimize_in_process ?F ?C q ''a.cpp'') = Some (Inr ''int main(){return 0;}'')"
    by (simp add: example_fresh_run)
  from example_leftover_objects 1 p 2 4 q 5 show ?thesis by blast
qed

end
